theory Spec2Isabelle
  imports Complex_Main "HOL-Library.Word" "HOL-Library.AList"
begin

section \<open>The UBJSON encoder of simpleubjson (\<^verbatim>\<open>simpleubjson/encoder.py\<close>)\<close>

text \<open>
  The encoder turns a Python value into a sequence of byte chunks. A handler is chosen by
  the value's run-time type (\<^verbatim>\<open>get_handler\<close>), the handler produces the chunks, and the
  container handlers call back into \<^verbatim>\<open>iterencode\<close> for every element.

  The embedding follows the Python 2 reading of the module, the one its docstring table
  describes (\<^verbatim>\<open>int\<close> and \<^verbatim>\<open>long\<close>, \<^verbatim>\<open>str\<close> and \<^verbatim>\<open>unicode\<close> under \<^verbatim>\<open>basestring\<close>,
  \<^verbatim>\<open>dict.iteritems()\<close>, \<^verbatim>\<open>xrange\<close>). The names imported from \<^verbatim>\<open>simpleubjson.compat\<close>
  are taken to be these built-in types.
\<close>

subsection \<open>Bytes, chunks and markers\<close>

type_synonym byte = "8 word"
type_synonym chunk = "byte list"

definition b :: "char \<Rightarrow> chunk" where
  "b c = [of_char c]"

definition MARKER_Z :: chunk where "MARKER_Z = b CHR ''Z''"
definition MARKER_N :: chunk where "MARKER_N = b CHR ''N''"
definition MARKER_F :: chunk where "MARKER_F = b CHR ''F''"
definition MARKER_T :: chunk where "MARKER_T = b CHR ''T''"
definition MARKER_B :: chunk where "MARKER_B = b CHR ''B''"
definition MARKER_i :: chunk where "MARKER_i = b CHR ''i''"
definition MARKER_I :: chunk where "MARKER_I = b CHR ''I''"
definition MARKER_L :: chunk where "MARKER_L = b CHR ''L''"
definition MARKER_d :: chunk where "MARKER_d = b CHR ''d''"
definition MARKER_D :: chunk where "MARKER_D = b CHR ''D''"
definition MARKER_s :: chunk where "MARKER_s = b CHR ''s''"
definition MARKER_S :: chunk where "MARKER_S = b CHR ''S''"
definition MARKER_h :: chunk where "MARKER_h = b CHR ''h''"
definition MARKER_H :: chunk where "MARKER_H = b CHR ''H''"
definition MARKER_a :: chunk where "MARKER_a = b CHR ''a''"
definition MARKER_A :: chunk where "MARKER_A = b CHR ''A''"
definition MARKER_o :: chunk where "MARKER_o = b CHR ''o''"
definition MARKER_O :: chunk where "MARKER_O = b CHR ''O''"
definition MARKER_E :: chunk where "MARKER_E = b CHR ''E''"
definition MARKER_FF :: chunk where "MARKER_FF = [0xFF]"

lemmas markers =
  b_def MARKER_Z_def MARKER_N_def MARKER_F_def MARKER_T_def MARKER_B_def MARKER_i_def
  MARKER_I_def MARKER_L_def MARKER_d_def MARKER_D_def MARKER_s_def MARKER_S_def
  MARKER_h_def MARKER_H_def MARKER_a_def MARKER_A_def MARKER_o_def MARKER_O_def
  MARKER_E_def MARKER_FF_def

subsection \<open>Python types and values\<close>

text \<open>
  The run-time types the encoder distinguishes. \<open>Class name base\<close> is a user-defined class
  with one base class; \<open>NoOpType\<close> is the class of the \<^verbatim>\<open>NOOP\<close> sentinel.
\<close>

datatype pytype =
    NoneType | PyBool | PyInt | PyLong | PyFloat | BaseString | PyStr | PyUnicode
  | PyTuple | PyList | PySet | PyFrozenset
  | DictKeysIterator | DictValuesIterator | DictItemsIterator | XRangeType | GeneratorType
  | PyDict | PyDecimal | PyObject | NoOpType
  | Class string pytype

text \<open>
  The method resolution order of a type: the type itself, then its bases up to
  \<^verbatim>\<open>object\<close>. In Python 2, \<^verbatim>\<open>bool\<close> derives from \<^verbatim>\<open>int\<close>, and \<^verbatim>\<open>str\<close> and
  \<^verbatim>\<open>unicode\<close> derive from \<^verbatim>\<open>basestring\<close>.
\<close>

fun mro :: "pytype \<Rightarrow> pytype list" where
  "mro (Class n base) = Class n base # mro base"
| "mro PyBool = [PyBool, PyInt, PyObject]"
| "mro PyStr = [PyStr, BaseString, PyObject]"
| "mro PyUnicode = [PyUnicode, BaseString, PyObject]"
| "mro PyObject = [PyObject]"
| "mro t = [t, PyObject]"

definition issubclass :: "pytype \<Rightarrow> pytype \<Rightarrow> bool" where
  "issubclass t u = (u \<in> set (mro t))"

text \<open>
  A Python float is a finite double (a rational), an infinity or a NaN. Comparisons with
  a NaN are false.
\<close>

datatype pyfloat = Finite rat | PosInf | NegInf | NaN

text \<open>
  Values. A \<^verbatim>\<open>str\<close> is its bytes, a \<^verbatim>\<open>unicode\<close> its code points. Sets and dicts carry
  their elements in iteration order; generators and iterators carry the finite sequence
  they produce; a \<^verbatim>\<open>Decimal\<close> carries its decimal text. \<open>Instance name v\<close> is an instance
  of a user-defined subclass of \<open>v\<close>'s type that inherits all behaviour; \<open>ObjectV\<close> is a
  plain \<^verbatim>\<open>object()\<close>.
\<close>

datatype pyval =
    NOOP
  | NoneV
  | BoolV bool
  | IntV int
  | LongV int
  | FloatV pyfloat
  | StrV "byte list"
  | UnicodeV "nat list"
  | TupleV "pyval list"
  | ListV "pyval list"
  | SetV "pyval list"
  | FrozensetV "pyval list"
  | DictKeysIterV "pyval list"
  | DictValuesIterV "pyval list"
  | DictItemsIterV "(pyval \<times> pyval) list"
  | XRangeV "int list"
  | GeneratorV "pyval list"
  | DictV "(pyval \<times> pyval) list"
  | DecimalV "byte list"
  | ObjectV
  | Instance string pyval

fun type_of :: "pyval \<Rightarrow> pytype" where
  "type_of NOOP = NoOpType"
| "type_of NoneV = NoneType"
| "type_of (BoolV _) = PyBool"
| "type_of (IntV _) = PyInt"
| "type_of (LongV _) = PyLong"
| "type_of (FloatV _) = PyFloat"
| "type_of (StrV _) = PyStr"
| "type_of (UnicodeV _) = PyUnicode"
| "type_of (TupleV _) = PyTuple"
| "type_of (ListV _) = PyList"
| "type_of (SetV _) = PySet"
| "type_of (FrozensetV _) = PyFrozenset"
| "type_of (DictKeysIterV _) = DictKeysIterator"
| "type_of (DictValuesIterV _) = DictValuesIterator"
| "type_of (DictItemsIterV _) = DictItemsIterator"
| "type_of (XRangeV _) = XRangeType"
| "type_of (GeneratorV _) = GeneratorType"
| "type_of (DictV _) = PyDict"
| "type_of (DecimalV _) = PyDecimal"
| "type_of ObjectV = PyObject"
| "type_of (Instance n v) = Class n (type_of v)"

definition isinstance :: "pyval \<Rightarrow> pytype \<Rightarrow> bool" where
  "isinstance v t = issubclass (type_of v) t"

subsection \<open>Errors and chunk traces\<close>

text \<open>
  The exceptions the module can raise: the \<^verbatim>\<open>TypeError\<close> of \<^verbatim>\<open>encode_default\<close> with the
  value its message formats, the \<^verbatim>\<open>TypeError\<close> of the \<^verbatim>\<open>%\<close> operator when its right
  operand is a tuple of the wrong length, the \<^verbatim>\<open>AssertionError\<close> with its message,
  \<^verbatim>\<open>struct.error\<close>, the \<^verbatim>\<open>IndexError\<close> of a list subscript, and any exception of a
  caller-supplied handler. \<open>NotApplicable\<close> marks a built-in handler run on a value that
  is not an instance of a type it is registered for, which the embedding does not follow;
  an encoder built by \<^verbatim>\<open>__init__\<close> never does so (\<open>not_applicable_unreachable\<close> below).
\<close>

datatype error =
    TypeError_unable pyval
  | TypeError_format
  | AssertionError string
  | StructError
  | IndexError
  | UserError string
  | NotApplicable

text \<open>
  A generator yields chunks and may then raise: its trace is the chunks produced and the
  exception, if any, that ended it.
\<close>

type_synonym trace = "chunk list \<times> error option"

definition ok :: "chunk list \<Rightarrow> trace" where
  "ok cs = (cs, None)"

definition raise :: "error \<Rightarrow> trace" where
  "raise e = ([], Some e)"

definition yield :: "chunk \<Rightarrow> trace" where
  "yield c = ([c], None)"

definition seq :: "trace \<Rightarrow> trace \<Rightarrow> trace" where
  "seq t u = (case snd t of Some e \<Rightarrow> t | None \<Rightarrow> (fst t @ fst u, snd u))"

definition of_result :: "error + chunk \<Rightarrow> trace" where
  "of_result r = (case r of Inl e \<Rightarrow> raise e | Inr c \<Rightarrow> yield c)"

subsection \<open>\<^verbatim>\<open>struct.pack\<close>\<close>

text \<open>
  \<open>be_bytes n v\<close> is the big-endian \<open>n\<close>-byte string of the integer \<open>v\<close>: byte \<open>k\<close> from the
  right is \<open>v div 256 ^ k\<close> modulo 256, which for a negative \<open>v\<close> is its two's complement.
  \<^verbatim>\<open>struct.pack\<close> raises \<^verbatim>\<open>struct.error\<close> when the number is out of the format's range
  (Python 2.7 and later).
\<close>

definition be_bytes :: "nat \<Rightarrow> int \<Rightarrow> chunk" where
  "be_bytes n v = map (\<lambda>k. word_of_int (v div 256 ^ k)) (rev [0..<n])"

definition pack_signed :: "nat \<Rightarrow> int \<Rightarrow> error + chunk" where
  "pack_signed n v =
     (if - (2 ^ (8 * n - 1)) \<le> v \<and> v \<le> 2 ^ (8 * n - 1) - 1 then Inr (be_bytes n v)
      else Inl StructError)"

definition pack_unsigned :: "nat \<Rightarrow> int \<Rightarrow> error + chunk" where
  "pack_unsigned n v =
     (if 0 \<le> v \<and> v \<le> 2 ^ (8 * n) - 1 then Inr (be_bytes n v) else Inl StructError)"

text \<open>The formats \<^verbatim>\<open>>b\<close>, \<^verbatim>\<open>>h\<close>, \<^verbatim>\<open>>i\<close>, \<^verbatim>\<open>>q\<close>, \<^verbatim>\<open>>B\<close> and \<^verbatim>\<open>>I\<close>.\<close>

definition pack_b :: "int \<Rightarrow> error + chunk" where "pack_b = pack_signed 1"
definition pack_h :: "int \<Rightarrow> error + chunk" where "pack_h = pack_signed 2"
definition pack_i :: "int \<Rightarrow> error + chunk" where "pack_i = pack_signed 4"
definition pack_q :: "int \<Rightarrow> error + chunk" where "pack_q = pack_signed 8"
definition pack_B :: "int \<Rightarrow> error + chunk" where "pack_B = pack_unsigned 1"
definition pack_I :: "int \<Rightarrow> error + chunk" where "pack_I = pack_unsigned 4"

text \<open>
  The operations of the Python runtime on floats that the module calls and the embedding
  does not define: \<^verbatim>\<open>struct.pack('>f', v)\<close>, \<^verbatim>\<open>struct.pack('>d', v)\<close> and the text
  \<^verbatim>\<open>unicode(v)\<close> of a float.
\<close>

record pylib =
  pack_f :: "pyfloat \<Rightarrow> chunk"
  pack_d :: "pyfloat \<Rightarrow> chunk"
  float_text :: "pyfloat \<Rightarrow> byte list"

subsection \<open>Views of a value\<close>

text \<open>
  What the handlers read from a value. An instance of a subclass behaves as its base:
  a \<^verbatim>\<open>bool\<close> is the integer 0 or 1, a sized sequence has a length and its elements, a
  dict has its items.
\<close>

fun as_int :: "pyval \<Rightarrow> int option" where
  "as_int (BoolV v) = Some (if v then 1 else 0)"
| "as_int (IntV i) = Some i"
| "as_int (LongV i) = Some i"
| "as_int (Instance n v) = as_int v"
| "as_int _ = None"

fun as_float :: "pyval \<Rightarrow> pyfloat option" where
  "as_float (FloatV x) = Some x"
| "as_float (Instance n v) = as_float v"
| "as_float _ = None"

text \<open>\<^verbatim>\<open>u.encode('utf-8')\<close> on the code points of a \<^verbatim>\<open>unicode\<close>.\<close>

definition utf8_char :: "nat \<Rightarrow> byte list" where
  "utf8_char c =
     (if c < 0x80 then [of_nat c]
      else if c < 0x800 then [of_nat (0xC0 + c div 64), of_nat (0x80 + c mod 64)]
      else if c < 0x10000 then
        [of_nat (0xE0 + c div 4096), of_nat (0x80 + c div 64 mod 64), of_nat (0x80 + c mod 64)]
      else
        [of_nat (0xF0 + c div 262144), of_nat (0x80 + c div 4096 mod 64),
         of_nat (0x80 + c div 64 mod 64), of_nat (0x80 + c mod 64)])"

definition utf8 :: "nat list \<Rightarrow> byte list" where
  "utf8 cs = concat (map utf8_char cs)"

text \<open>
  The byte string \<^verbatim>\<open>encode_str\<close> measures and writes: a \<^verbatim>\<open>unicode\<close> is first encoded
  to UTF-8, a \<^verbatim>\<open>str\<close> is taken as it is.
\<close>

fun str_bytes :: "pyval \<Rightarrow> byte list option" where
  "str_bytes (StrV bs) = Some bs"
| "str_bytes (UnicodeV cs) = Some (utf8 cs)"
| "str_bytes (Instance n v) = str_bytes v"
| "str_bytes _ = None"

fun seq_items :: "pyval \<Rightarrow> pyval list option" where
  "seq_items (TupleV xs) = Some xs"
| "seq_items (ListV xs) = Some xs"
| "seq_items (SetV xs) = Some xs"
| "seq_items (FrozensetV xs) = Some xs"
| "seq_items (Instance n v) = seq_items v"
| "seq_items _ = None"

fun gen_items :: "pyval \<Rightarrow> pyval list option" where
  "gen_items (DictKeysIterV xs) = Some xs"
| "gen_items (DictValuesIterV xs) = Some xs"
| "gen_items (XRangeV js) = Some (map IntV js)"
| "gen_items (GeneratorV xs) = Some xs"
| "gen_items (Instance n v) = gen_items v"
| "gen_items _ = None"

fun dict_items :: "pyval \<Rightarrow> (pyval \<times> pyval) list option" where
  "dict_items (DictV kvs) = Some kvs"
| "dict_items (Instance n v) = dict_items v"
| "dict_items _ = None"

fun iter_pairs :: "pyval \<Rightarrow> (pyval \<times> pyval) list option" where
  "iter_pairs (DictItemsIterV kvs) = Some kvs"
| "iter_pairs (Instance n v) = iter_pairs v"
| "iter_pairs _ = None"

text \<open>The decimal text of an integer, as \<^verbatim>\<open>unicode(n)\<close> gives it (ASCII).\<close>

function nat_digits :: "nat \<Rightarrow> byte list" where
  "nat_digits n =
     (if n < 10 then [of_nat (48 + n)] else nat_digits (n div 10) @ [of_nat (48 + n mod 10)])"
  by pat_completeness auto
termination
  by (relation "measure (\<lambda>n. n)") auto

declare nat_digits.simps [simp del]

definition int_text :: "int \<Rightarrow> byte list" where
  "int_text i = (if i < 0 then of_char CHR ''-'' # nat_digits (nat (- i)) else nat_digits (nat i))"

text \<open>
  \<^verbatim>\<open>unicode(value).encode('utf-8')\<close> for the values \<^verbatim>\<open>encode_huge_number\<close> receives. The
  text of a number is ASCII, so its UTF-8 encoding is the text itself.
\<close>

fun unicode_text :: "pylib \<Rightarrow> pyval \<Rightarrow> byte list option" where
  "unicode_text L (BoolV v) = Some (map of_char (if v then ''True'' else ''False''))"
| "unicode_text L (IntV i) = Some (int_text i)"
| "unicode_text L (LongV i) = Some (int_text i)"
| "unicode_text L (FloatV x) = Some (float_text L x)"
| "unicode_text L (DecimalV t) = Some t"
| "unicode_text L (Instance n v) = unicode_text L v"
| "unicode_text L _ = None"

subsection \<open>The range predicates (lines 20 to 26)\<close>

definition is_byte :: "int \<Rightarrow> bool" where
  "is_byte value = (- (2 ^ 7) \<le> value \<and> value \<le> 2 ^ 7 - 1)"

definition is_int16 :: "int \<Rightarrow> bool" where
  "is_int16 value = (- (2 ^ 15) \<le> value \<and> value \<le> 2 ^ 15 - 1)"

definition is_int32 :: "int \<Rightarrow> bool" where
  "is_int32 value = (- (2 ^ 31) \<le> value \<and> value \<le> 2 ^ 31 - 1)"

definition is_int64 :: "int \<Rightarrow> bool" where
  "is_int64 value = (- (2 ^ 63) \<le> value \<and> value \<le> 2 ^ 63 - 1)"

text \<open>Float comparison and \<^verbatim>\<open>abs\<close>; every comparison with a NaN is false.\<close>

fun fle :: "pyfloat \<Rightarrow> pyfloat \<Rightarrow> bool" where
  "fle NaN _ = False"
| "fle _ NaN = False"
| "fle NegInf _ = True"
| "fle _ PosInf = True"
| "fle (Finite x) (Finite y) = (x \<le> y)"
| "fle _ _ = False"

definition flt :: "pyfloat \<Rightarrow> pyfloat \<Rightarrow> bool" where
  "flt x y = (fle x y \<and> \<not> fle y x)"

definition feq :: "pyfloat \<Rightarrow> pyfloat \<Rightarrow> bool" where
  "feq x y = (x \<noteq> NaN \<and> x = y)"

fun fabs :: "pyfloat \<Rightarrow> pyfloat" where
  "fabs (Finite x) = Finite \<bar>x\<bar>"
| "fabs PosInf = PosInf"
| "fabs NegInf = PosInf"
| "fabs NaN = NaN"

text \<open>
  The float literals of the module, as the doubles Python reads them:
  \<^verbatim>\<open>1.18e-38\<close> is \<open>1130215461388593 / 2 ^ 176\<close>, \<^verbatim>\<open>3.4e38\<close> is the integer below,
  \<^verbatim>\<open>2.23e-308\<close> is \<open>4513570248753027 / 2 ^ 1074\<close>, and \<^verbatim>\<open>1.8e308\<close> overflows to infinity.
\<close>

definition lit_1_18e_38 :: pyfloat where
  "lit_1_18e_38 = Finite (1130215461388593 / 2 ^ 176)"

definition lit_3_4e38 :: pyfloat where
  "lit_3_4e38 = Finite 339999999999999996123846586046231871488"

definition lit_2_23e_308 :: pyfloat where
  "lit_2_23e_308 = Finite (4513570248753027 / 2 ^ 1074)"

definition lit_1_8e308 :: pyfloat where
  "lit_1_8e308 = PosInf"

definition is_float :: "pyfloat \<Rightarrow> bool" where
  "is_float value = (fle lit_1_18e_38 (fabs value) \<and> fle (fabs value) lit_3_4e38)"

definition is_double :: "pyfloat \<Rightarrow> bool" where
  "is_double value = (fle lit_2_23e_308 (fabs value) \<and> flt (fabs value) lit_1_8e308)"

definition is_infinity :: "pyfloat \<Rightarrow> bool" where
  "is_infinity value = (feq value PosInf \<or> feq value NegInf)"

subsection \<open>Scalar handlers\<close>

text \<open>
  A handler that returns a list evaluates all its elements before anything is yielded:
  an exception in one of them leaves no chunk.
\<close>

fun collect :: "(error + chunk) list \<Rightarrow> error + chunk list" where
  "collect [] = Inr []"
| "collect (Inl e # rs) = Inl e"
| "collect (Inr c # rs) = (case collect rs of Inl e \<Rightarrow> Inl e | Inr cs \<Rightarrow> Inr (c # cs))"

definition returned :: "(error + chunk) list \<Rightarrow> trace" where
  "returned rs = (case collect rs of Inl e \<Rightarrow> raise e | Inr cs \<Rightarrow> ok cs)"

text \<open>
  \<^verbatim>\<open>struct.pack('>%ds' % length, value)\<close>: the first \<open>length\<close> bytes, padded with zero
  bytes.
\<close>

definition pack_s :: "nat \<Rightarrow> byte list \<Rightarrow> error + chunk" where
  "pack_s n value = Inr (take n value @ replicate (n - length value) 0)"

text \<open>
  \<^verbatim>\<open>encode_default\<close> formats the value into its message with \<^verbatim>\<open>%\<close>, which takes a
  tuple on its right as the list of arguments: a one-element tuple formats its element,
  any other tuple raises the \<^verbatim>\<open>TypeError\<close> of the operator itself.
\<close>

definition encode_default :: "pyval \<Rightarrow> trace" where
  "encode_default v =
     (if isinstance v PyTuple then
        (case seq_items v of Some [x] \<Rightarrow> raise (TypeError_unable x) | _ \<Rightarrow> raise TypeError_format)
      else raise (TypeError_unable v))"

definition encode_noop :: "pyval \<Rightarrow> trace" where
  "encode_noop v = yield MARKER_N"

definition encode_none :: "pyval \<Rightarrow> trace" where
  "encode_none v = yield MARKER_Z"

text \<open>
  \<^verbatim>\<open>[MARKER_F, MARKER_T][value]\<close>: a subscript of a two-element list, valid from -2
  to 1.
\<close>

definition encode_bool :: "pyval \<Rightarrow> trace" where
  "encode_bool v =
     (case as_int v of
        None \<Rightarrow> raise NotApplicable
      | Some i \<Rightarrow>
          if - 2 \<le> i \<and> i < 2 then yield ([MARKER_F, MARKER_T] ! nat (i mod 2))
          else raise IndexError)"

definition encode_huge_number :: "pylib \<Rightarrow> pyval \<Rightarrow> trace" where
  "encode_huge_number L v =
     (case unicode_text L v of
        None \<Rightarrow> raise NotApplicable
      | Some value \<Rightarrow>
          (let size = length value in
           if size < 255 then returned [Inr MARKER_h, pack_B (int size), pack_s size value]
           else returned [Inr MARKER_H, pack_I (int size), pack_s size value]))"

definition encode_number :: "pylib \<Rightarrow> pyval \<Rightarrow> trace" where
  "encode_number L v =
     (case as_int v of
        None \<Rightarrow> raise NotApplicable
      | Some value \<Rightarrow>
          if is_byte value then returned [Inr MARKER_B, pack_b value]
          else if is_int16 value then returned [Inr MARKER_i, pack_h value]
          else if is_int32 value then returned [Inr MARKER_I, pack_i value]
          else if is_int64 value then returned [Inr MARKER_L, pack_q value]
          else encode_huge_number L v)"

definition encode_float :: "pylib \<Rightarrow> pyval \<Rightarrow> trace" where
  "encode_float L v =
     (case as_float v of
        None \<Rightarrow> raise NotApplicable
      | Some value \<Rightarrow>
          if is_float value then returned [Inr MARKER_d, Inr (pack_f L value)]
          else if is_double value then returned [Inr MARKER_D, Inr (pack_d L value)]
          else if is_infinity value then returned [Inr MARKER_Z]
          else encode_huge_number L v)"

definition encode_str :: "pyval \<Rightarrow> trace" where
  "encode_str v =
     (case str_bytes v of
        None \<Rightarrow> raise NotApplicable
      | Some value \<Rightarrow>
          (let length = length value in
           if length < 255 then returned [Inr MARKER_s, pack_B (int length), pack_s length value]
           else returned [Inr MARKER_S, pack_I (int length), pack_s length value]))"

subsection \<open>Container handlers\<close>

text \<open>
  The container handlers are generators. They take \<^verbatim>\<open>self.iterencode\<close> as the parameter
  \<open>rec\<close>. The loop \<^verbatim>\<open>for item in value: for chunk in self.iterencode(item): yield chunk\<close>
  passes on the chunks of each item in turn and ends at the first exception.
\<close>

fun for_each :: "(pyval \<Rightarrow> trace) \<Rightarrow> pyval list \<Rightarrow> trace" where
  "for_each rec [] = ok []"
| "for_each rec (item # rest) = seq (rec item) (for_each rec rest)"

definition encode_array :: "(pyval \<Rightarrow> trace) \<Rightarrow> pyval \<Rightarrow> trace" where
  "encode_array rec v =
     (case seq_items v of
        None \<Rightarrow> raise NotApplicable
      | Some xs \<Rightarrow>
          (let size = length xs in
           seq (if size < 255 then seq (yield MARKER_a) (of_result (pack_B (int size)))
                else seq (yield MARKER_A) (of_result (pack_I (int size))))
               (for_each rec xs)))"

definition encode_generator :: "(pyval \<Rightarrow> trace) \<Rightarrow> pyval \<Rightarrow> trace" where
  "encode_generator rec v =
     (case gen_items v of
        None \<Rightarrow> raise NotApplicable
      | Some xs \<Rightarrow>
          seq (yield MARKER_a) (seq (yield MARKER_FF) (seq (for_each rec xs) (yield MARKER_E))))"

text \<open>The loop of \<^verbatim>\<open>encode_dict\<close> over \<^verbatim>\<open>value.items()\<close>.\<close>

fun dict_loop :: "(pyval \<Rightarrow> trace) \<Rightarrow> (pyval \<times> pyval) list \<Rightarrow> trace" where
  "dict_loop rec [] = ok []"
| "dict_loop rec ((key, val) # rest) =
     (if isinstance key BaseString then seq (rec key) (seq (rec val) (dict_loop rec rest))
      else raise (AssertionError ''object key should be a string''))"

definition encode_dict :: "(pyval \<Rightarrow> trace) \<Rightarrow> pyval \<Rightarrow> trace" where
  "encode_dict rec v =
     (case dict_items v of
        None \<Rightarrow> raise NotApplicable
      | Some kvs \<Rightarrow>
          (let size = length kvs in
           seq (if size < 255 then seq (yield MARKER_o) (of_result (pack_B (int size)))
                else seq (yield MARKER_O) (of_result (pack_I (int size))))
               (dict_loop rec kvs)))"

text \<open>
  The loop of \<^verbatim>\<open>encode_iterated_dict\<close>: each pair is handed to \<^verbatim>\<open>self.iterencode\<close> as
  the tuple \<^verbatim>\<open>(key, value)\<close>.
\<close>

fun iterated_loop :: "(pyval \<Rightarrow> trace) \<Rightarrow> (pyval \<times> pyval) list \<Rightarrow> trace" where
  "iterated_loop rec [] = ok []"
| "iterated_loop rec ((key, value) # rest) =
     (if isinstance key BaseString then seq (rec (TupleV [key, value])) (iterated_loop rec rest)
      else raise (AssertionError ''object key should be a string''))"

definition encode_iterated_dict :: "(pyval \<Rightarrow> trace) \<Rightarrow> pyval \<Rightarrow> trace" where
  "encode_iterated_dict rec v =
     (case iter_pairs v of
        None \<Rightarrow> raise NotApplicable
      | Some kvs \<Rightarrow>
          seq (yield MARKER_o) (seq (yield MARKER_FF) (seq (iterated_loop rec kvs) (yield MARKER_E))))"

subsection \<open>The encoder object and handler resolution\<close>

text \<open>
  A handler is one of the encoder's own methods or a function supplied by the caller.
  A caller's function is taken by the trace it produces for each value.
\<close>

datatype handler =
    EncodeDefault | EncodeNoop | EncodeNone | EncodeBool | EncodeNumber | EncodeFloat
  | EncodeStr | EncodeArray | EncodeGenerator | EncodeDict | EncodeIteratedDict
  | EncodeHugeNumber
  | Custom "pyval \<Rightarrow> trace"

text \<open>
  The state of an encoder: the registry \<^verbatim>\<open>self._handlers\<close>, a dict from types to handlers
  (or to \<^verbatim>\<open>None\<close>) kept as an association list in iteration order, and the method
  \<^verbatim>\<open>self.encode_default\<close>.
\<close>

record encoder =
  handlers :: "(pytype \<times> handler option) list"
  default_handler :: handler

definition default_handlers :: "(pytype \<times> handler option) list" where
  "default_handlers =
     [(NoneType, Some EncodeNone),
      (PyBool, Some EncodeBool),
      (PyInt, Some EncodeNumber),
      (PyLong, Some EncodeNumber),
      (PyFloat, Some EncodeFloat),
      (BaseString, Some EncodeStr),
      (PyTuple, Some EncodeArray),
      (PyList, Some EncodeArray),
      (PySet, Some EncodeArray),
      (PyFrozenset, Some EncodeArray),
      (DictKeysIterator, Some EncodeGenerator),
      (DictValuesIterator, Some EncodeGenerator),
      (DictItemsIterator, Some EncodeIteratedDict),
      (XRangeType, Some EncodeGenerator),
      (GeneratorType, Some EncodeGenerator),
      (PyDict, Some EncodeDict),
      (PyDecimal, Some EncodeHugeNumber)]"

text \<open>
  \<^verbatim>\<open>__init__(default, handlers)\<close>. \<^verbatim>\<open>dict.update\<close> replaces the handler of a key that is
  present, in place, and appends a new key. A handler that is \<^verbatim>\<open>None\<close> stays \<^verbatim>\<open>None\<close>.
\<close>

definition init :: "(pyval \<Rightarrow> trace) option \<Rightarrow> (pytype \<times> (pyval \<Rightarrow> trace) option) list option \<Rightarrow> encoder" where
  "init dflt overrides =
     \<lparr> handlers =
         (case overrides of
            None \<Rightarrow> default_handlers
          | Some hs \<Rightarrow> fold (\<lambda>(key, handler). AList.update key (map_option Custom handler)) hs default_handlers),
       default_handler = (case dflt of None \<Rightarrow> EncodeDefault | Some f \<Rightarrow> Custom f) \<rparr>"

text \<open>\<^verbatim>\<open>self._handlers.get(tval)\<close>: \<^verbatim>\<open>None\<close> for a missing key and for a key bound to \<^verbatim>\<open>None\<close>.\<close>

definition dict_get :: "(pytype \<times> handler option) list \<Rightarrow> pytype \<Rightarrow> handler option" where
  "dict_get d k = (case map_of d k of Some h \<Rightarrow> h | None \<Rightarrow> None)"

definition get_handler :: "encoder \<Rightarrow> pyval \<Rightarrow> handler" where
  "get_handler self v =
     (if v = NOOP then EncodeNoop
      else
        (let tval = type_of v in
         case dict_get (handlers self) tval of
           Some handler \<Rightarrow> handler
         | None \<Rightarrow>
             (case fold (\<lambda>(pytype, handler) maybe_handler.
                           if isinstance v pytype then handler else maybe_handler)
                        (handlers self) None of
                Some maybe_handler \<Rightarrow> maybe_handler
              | None \<Rightarrow> default_handler self)))"

subsection \<open>\<^verbatim>\<open>iterencode\<close> and \<^verbatim>\<open>encode\<close>\<close>

fun run_handler :: "pylib \<Rightarrow> (pyval \<Rightarrow> trace) \<Rightarrow> handler \<Rightarrow> pyval \<Rightarrow> trace" where
  "run_handler L rec EncodeDefault v = encode_default v"
| "run_handler L rec EncodeNoop v = encode_noop v"
| "run_handler L rec EncodeNone v = encode_none v"
| "run_handler L rec EncodeBool v = encode_bool v"
| "run_handler L rec EncodeNumber v = encode_number L v"
| "run_handler L rec EncodeFloat v = encode_float L v"
| "run_handler L rec EncodeStr v = encode_str v"
| "run_handler L rec EncodeArray v = encode_array rec v"
| "run_handler L rec EncodeGenerator v = encode_generator rec v"
| "run_handler L rec EncodeDict v = encode_dict rec v"
| "run_handler L rec EncodeIteratedDict v = encode_iterated_dict rec v"
| "run_handler L rec EncodeHugeNumber v = encode_huge_number L v"
| "run_handler L rec (Custom f) v = f v"

text \<open>The values on which a container handler calls \<^verbatim>\<open>self.iterencode\<close>.\<close>

fun children :: "pyval \<Rightarrow> pyval list" where
  "children (TupleV xs) = xs"
| "children (ListV xs) = xs"
| "children (SetV xs) = xs"
| "children (FrozensetV xs) = xs"
| "children (DictKeysIterV xs) = xs"
| "children (DictValuesIterV xs) = xs"
| "children (GeneratorV xs) = xs"
| "children (XRangeV js) = map IntV js"
| "children (DictV kvs) = concat (map (\<lambda>(k, w). [k, w]) kvs)"
| "children (DictItemsIterV kvs) = map (\<lambda>(k, w). TupleV [k, w]) kvs"
| "children (Instance n v) = children v"
| "children _ = []"

lemma for_each_cong:
  "(\<And>x. x \<in> set xs \<Longrightarrow> rec x = rec' x) \<Longrightarrow> for_each rec xs = for_each rec' xs"
  by (induction xs) simp_all

lemma dict_loop_cong:
  "(\<And>k w. (k, w) \<in> set kvs \<Longrightarrow> rec k = rec' k) \<Longrightarrow>
   (\<And>k w. (k, w) \<in> set kvs \<Longrightarrow> rec w = rec' w) \<Longrightarrow>
   dict_loop rec kvs = dict_loop rec' kvs"
proof (induction kvs)
  case Nil
  show ?case by simp
next
  case (Cons p kvs)
  obtain k w where p: "p = (k, w)" by (cases p)
  have "rec k = rec' k" "rec w = rec' w"
    using Cons.prems(1) [of k w] Cons.prems(2) [of k w] p by simp_all
  moreover have "dict_loop rec kvs = dict_loop rec' kvs"
    using Cons.prems by (intro Cons.IH) auto
  ultimately show ?case using p by simp
qed

lemma iterated_loop_cong:
  "(\<And>k w. (k, w) \<in> set kvs \<Longrightarrow> rec (TupleV [k, w]) = rec' (TupleV [k, w])) \<Longrightarrow>
   iterated_loop rec kvs = iterated_loop rec' kvs"
  by (induction kvs) auto

lemma seq_items_children: "seq_items v = Some xs \<Longrightarrow> set xs \<subseteq> set (children v)"
  by (induction v rule: seq_items.induct) auto

lemma gen_items_children: "gen_items v = Some xs \<Longrightarrow> set xs \<subseteq> set (children v)"
  by (induction v rule: gen_items.induct) auto

lemma dict_items_children:
  "dict_items v = Some kvs \<Longrightarrow> (k, w) \<in> set kvs \<Longrightarrow> k \<in> set (children v) \<and> w \<in> set (children v)"
  by (induction v rule: dict_items.induct) force+

lemma iter_pairs_children:
  "iter_pairs v = Some kvs \<Longrightarrow> (k, w) \<in> set kvs \<Longrightarrow> TupleV [k, w] \<in> set (children v)"
  by (induction v rule: iter_pairs.induct) force+

lemma run_handler_cong [fundef_cong]:
  assumes "h = h'" and "v = v'" and "\<And>x. x \<in> set (children v') \<Longrightarrow> rec x = rec' x"
  shows "run_handler L rec h v = run_handler L rec' h' v'"
proof (cases h')
  case EncodeArray
  have "for_each rec xs = for_each rec' xs" if "seq_items v' = Some xs" for xs
    using seq_items_children [OF that] assms(3) by (intro for_each_cong) auto
  then show ?thesis
    using assms(1,2) EncodeArray by (simp add: encode_array_def split: option.splits)
next
  case EncodeGenerator
  have "for_each rec xs = for_each rec' xs" if "gen_items v' = Some xs" for xs
    using gen_items_children [OF that] assms(3) by (intro for_each_cong) auto
  then show ?thesis
    using assms(1,2) EncodeGenerator by (simp add: encode_generator_def split: option.splits)
next
  case EncodeDict
  have "dict_loop rec kvs = dict_loop rec' kvs" if "dict_items v' = Some kvs" for kvs
    using dict_items_children [OF that] assms(3) by (intro dict_loop_cong) blast+
  then show ?thesis
    using assms(1,2) EncodeDict by (simp add: encode_dict_def split: option.splits)
next
  case EncodeIteratedDict
  have "iterated_loop rec kvs = iterated_loop rec' kvs" if "iter_pairs v' = Some kvs" for kvs
    using iter_pairs_children [OF that] assms(3) by (intro iterated_loop_cong) auto
  then show ?thesis
    using assms(1,2) EncodeIteratedDict by (simp add: encode_iterated_dict_def split: option.splits)
qed (use assms(1,2) in simp_all)

text \<open>
  \<^verbatim>\<open>iterencode\<close> resolves the handler and passes on its chunks. The recursion ends because
  every handler calls back on parts of the value only; the pair tuples built by
  \<^verbatim>\<open>encode_iterated_dict\<close> are no larger than the pairs they come from, so a tuple (and
  an integer produced by an \<^verbatim>\<open>xrange\<close>) counts for less than any other value of its size.
\<close>

definition weight :: "pyval \<Rightarrow> nat" where
  "weight v = 2 * size v + (case v of TupleV _ \<Rightarrow> 0 | IntV _ \<Rightarrow> 0 | _ \<Rightarrow> 1)"

lemma children_size: "x \<in> set (children v) \<Longrightarrow> weight x < weight v"
proof (induction v rule: children.induct)
  case (9 kvs)
  then obtain k w where kw: "(k, w) \<in> set kvs" "x = k \<or> x = w" by auto
  from kw(1) have "size_prod size size (k, w) < size_list (size_prod size size) kvs"
    by (induction kvs) auto
  with kw(2) show ?case by (auto simp: weight_def split: pyval.splits)
next
  case (10 kvs)
  then obtain k w where kw: "(k, w) \<in> set kvs" "x = TupleV [k, w]" by auto
  from kw(1) have "size_prod size size (k, w) < size_list (size_prod size size) kvs"
    by (induction kvs) auto
  with kw(2) show ?case by (auto simp: weight_def)
next
  case (11 n v)
  then have "weight x < weight v" by simp
  then show ?case by (auto simp: weight_def split: pyval.splits)
qed (auto simp: weight_def size_list_estimation' less_Suc_eq_le
       dest!: size_list_estimation' [where f = size and y = "size x", OF _ order_refl]
       split: pyval.splits)

function iterencode :: "pylib \<Rightarrow> encoder \<Rightarrow> pyval \<Rightarrow> trace" where
  "iterencode L self v = run_handler L (iterencode L self) (get_handler self v) v"
  by pat_completeness auto
termination
  by (relation "measure (\<lambda>(L, self, v). weight v)") (auto simp: children_size)

declare iterencode.simps [simp del]

text \<open>
  \<^verbatim>\<open>encode(value)\<close> without a sink joins the chunks; an exception leaves no result.
\<close>

definition encode :: "pylib \<Rightarrow> encoder \<Rightarrow> pyval \<Rightarrow> error + byte list" where
  "encode L self v =
     (case iterencode L self v of (cs, None) \<Rightarrow> Inr (concat cs) | (cs, Some e) \<Rightarrow> Inl e)"

section \<open>Properties\<close>

subsection \<open>Reading a length or an integer back from its bytes\<close>

text \<open>
  The wire format's own reading of a payload, written independently of \<open>be_bytes\<close>: the
  bytes are the digits of a number in base 256, most significant first, and a signed
  payload whose top bit is set stands for the number minus \<open>2 ^ (8 * length)\<close>.
\<close>

definition be_unsigned :: "chunk \<Rightarrow> int" where
  "be_unsigned bs = foldl (\<lambda>acc x. acc * 256 + uint x) 0 bs"

definition be_signed :: "chunk \<Rightarrow> int" where
  "be_signed bs =
     (let u = be_unsigned bs in
      if u < 2 ^ (8 * length bs - 1) then u else u - 2 ^ (8 * length bs))"

text \<open>\<open>fits w n\<close>: the integer \<open>n\<close> lies within the signed range of \<open>w\<close> bytes.\<close>

definition fits :: "nat \<Rightarrow> int \<Rightarrow> bool" where
  "fits w n = (- (2 ^ (8 * w - 1)) \<le> n \<and> n \<le> 2 ^ (8 * w - 1) - 1)"

text \<open>The marker of the fixed-width integer form of \<open>w\<close> bytes.\<close>

definition int_marker :: "nat \<Rightarrow> chunk" where
  "int_marker w =
     (if w = 1 then MARKER_B else if w = 2 then MARKER_i else if w = 4 then MARKER_I
      else MARKER_L)"

text \<open>
  The decimal text of an integer, described without reference to \<open>int_text\<close>: an optional
  minus sign and then a non-empty string of the ASCII digits 0 to 9, with no leading zero
  unless it is the single digit 0, that reads back in base ten as the magnitude.
\<close>

definition is_digit :: "byte \<Rightarrow> bool" where
  "is_digit c = (48 \<le> unat c \<and> unat c \<le> 57)"

definition read_nat :: "byte list \<Rightarrow> nat" where
  "read_nat ds = foldl (\<lambda>acc c. acc * 10 + (unat c - 48)) 0 ds"

definition canonical :: "byte list \<Rightarrow> bool" where
  "canonical ds = (ds \<noteq> [] \<and> list_all is_digit ds \<and> (length ds = 1 \<or> hd ds \<noteq> 48))"

definition is_decimal_of :: "byte list \<Rightarrow> int \<Rightarrow> bool" where
  "is_decimal_of t n =
     (if n < 0 then t \<noteq> [] \<and> hd t = of_char CHR ''-'' \<and> canonical (tl t) \<and> int (read_nat (tl t)) = - n
      else canonical t \<and> int (read_nat t) = n)"


text \<open>A float library for concrete evaluations in which no float occurs.\<close>

definition zero_lib :: pylib where
  "zero_lib =
     \<lparr> pack_f = (\<lambda>x. replicate 4 0), pack_d = (\<lambda>x. replicate 8 0), float_text = (\<lambda>x. []) \<rparr>"

lemma length_be_bytes [simp]: "length (be_bytes n v) = n"
  by (simp add: be_bytes_def)

lemma be_bytes_Suc: "be_bytes (Suc n) v = word_of_int (v div 256 ^ n) # be_bytes n v"
  by (simp add: be_bytes_def)

lemma foldl_be_shift:
  "foldl (\<lambda>acc x. acc * 256 + uint (x :: byte)) a bs = a * 256 ^ length bs + foldl (\<lambda>acc x. acc * 256 + uint x) 0 bs"
proof (induction bs arbitrary: a)
  case Nil
  show ?case by simp
next
  case (Cons x bs)
  have "foldl (\<lambda>acc x. acc * 256 + uint x) (a * 256 + uint x) bs =
        (a * 256 + uint x) * 256 ^ length bs + foldl (\<lambda>acc x. acc * 256 + uint x) 0 bs"
    by (rule Cons.IH)
  moreover have "foldl (\<lambda>acc x. acc * 256 + uint x) (uint x) bs =
        uint x * 256 ^ length bs + foldl (\<lambda>acc x. acc * 256 + uint x) 0 bs"
    by (rule Cons.IH)
  ultimately show ?case by (simp add: ring_distribs)
qed

lemma be_unsigned_Cons: "be_unsigned (x # bs) = uint x * 256 ^ length bs + be_unsigned bs"
  using foldl_be_shift [of "uint x" bs] by (simp add: be_unsigned_def)

lemma be_unsigned_be_bytes: "be_unsigned (be_bytes n v) = v mod 256 ^ n"
proof (induction n)
  case 0
  show ?case by (simp add: be_bytes_def be_unsigned_def)
next
  case (Suc n)
  have "uint (word_of_int (v div 256 ^ n) :: byte) = v div 256 ^ n mod 256"
    by (simp add: uint_word_of_int_eq take_bit_eq_mod)
  then have "be_unsigned (be_bytes (Suc n) v) = (v div 256 ^ n mod 256) * 256 ^ n + v mod 256 ^ n"
    by (simp add: be_bytes_Suc be_unsigned_Cons Suc.IH)
  also have "\<dots> = v mod 256 ^ Suc n"
    using zmod_zmult2_eq [of 256 v "256 ^ n"] by (simp add: mult.commute)
  finally show ?case .
qed

lemma be_signed_be_bytes:
  assumes "0 < n" and "fits n v"
  shows "be_signed (be_bytes n v) = v"
proof -
  have p: "(256::int) ^ n = 2 ^ (8 * n)" 
    by (simp add: power_mult)
  have "8 * n = Suc (8 * n - 1)"
    using assms(1) by simp
  then have h: "(2::int) ^ (8 * n) = 2 * 2 ^ (8 * n - 1)"
    by (metis power_Suc)
  from assms(2) have b: "- (2 ^ (8 * n - 1)) \<le> v" "v < 2 ^ (8 * n - 1)"
    by (simp_all add: fits_def)
  show ?thesis
  proof (cases "0 \<le> v")
    case True
    then have "v mod 2 ^ (8 * n) = v" using b h by simp
    then show ?thesis using b by (simp add: be_signed_def be_unsigned_be_bytes p)
  next
    case False
    then have "v mod 2 ^ (8 * n) = v + 2 ^ (8 * n)" 
      using b h by (intro mod_pos_pos_trivial [of "v + 2 ^ (8 * n)" "2 ^ (8 * n)", THEN subst [where P = "\<lambda>z. v mod 2 ^ (8 * n) = z"]]) (simp_all add: mod_add_self2)
    then show ?thesis using b h False by (simp add: be_signed_def be_unsigned_be_bytes p)
  qed
qed


lemma be_bytes_1: "be_bytes 1 v = [word_of_int v]" "be_bytes (Suc 0) v = [word_of_int v]"
  by (simp_all add: be_bytes_def)

lemma be_bytes_2: "be_bytes 2 v = [word_of_int (v div 256), word_of_int v]"
  by (simp add: be_bytes_def numeral_eq_Suc)

lemma be_bytes_4:
  "be_bytes 4 v =
     [word_of_int (v div 16777216), word_of_int (v div 65536), word_of_int (v div 256), word_of_int v]"
  by (simp add: be_bytes_def numeral_eq_Suc)


lemma be_unsigned_be_bytes_nat:
  assumes "n < 2 ^ (8 * w)"
  shows "be_unsigned (be_bytes w (int n)) = int n"
proof -
  have "int n < 2 ^ (8 * w)"
    using assms by (metis of_nat_less_iff of_nat_numeral of_nat_power)
  then have "int n mod 256 ^ w = int n"
    by (simp add: power_mult)
  then show ?thesis by (simp add: be_unsigned_be_bytes)
qed

subsection \<open>Lists returned by the scalar handlers\<close>

lemma pack_s_exact [simp]: "pack_s (length value) value = Inr value"
  by (simp add: pack_s_def)

lemma returned_Inr2: "returned [Inr a, Inr c] = ok [a, c]"
  by (simp add: returned_def)

lemma returned_Inr3: "returned [Inr a, Inr c, Inr d] = ok [a, c, d]"
  by (simp add: returned_def)

lemma returned_Inl2: "returned [Inr a, Inl e, r] = raise e"
  by (simp add: returned_def)

lemma pack_signed_fits: "fits w n \<Longrightarrow> pack_signed w n = Inr (be_bytes w n)"
  by (simp add: pack_signed_def fits_def)

lemma pack_unsigned_in_range:
  "n < 2 ^ (8 * w) \<Longrightarrow> pack_unsigned w (int n) = Inr (be_bytes w (int n))"
proof -
  assume "n < 2 ^ (8 * w)"
  then have "int n < 2 ^ (8 * w)"
    by (metis of_nat_less_iff of_nat_numeral of_nat_power)
  then show ?thesis by (simp add: pack_unsigned_def)
qed

lemma pack_unsigned_overflow:
  "2 ^ (8 * w) \<le> n \<Longrightarrow> pack_unsigned w (int n) = Inl StructError"
proof -
  assume "2 ^ (8 * w) \<le> n"
  then have "(2::int) ^ (8 * w) \<le> int n"
    by (metis of_nat_le_iff of_nat_numeral of_nat_power)
  then show ?thesis by (simp add: pack_unsigned_def)
qed

lemma encode_huge_number_short:
  assumes "unicode_text L v = Some t" and "length t < 255"
  shows "encode_huge_number L v = ok [MARKER_h, be_bytes 1 (int (length t)), t]"
proof -
  have "length t < 2 ^ (8 * 1)" using assms(2) by simp
  then have "pack_B (int (length t)) = Inr (be_bytes 1 (int (length t)))"
    unfolding pack_B_def by (rule pack_unsigned_in_range)
  then show ?thesis using assms by (simp add: encode_huge_number_def returned_Inr3)
qed

lemma encode_huge_number_long:
  assumes "unicode_text L v = Some t" and "255 \<le> length t" and "length t < 2 ^ 32"
  shows "encode_huge_number L v = ok [MARKER_H, be_bytes 4 (int (length t)), t]"
proof -
  have "length t < 2 ^ (8 * 4)" using assms(3) by simp
  then have "pack_I (int (length t)) = Inr (be_bytes 4 (int (length t)))"
    unfolding pack_I_def by (rule pack_unsigned_in_range)
  then show ?thesis using assms by (simp add: encode_huge_number_def returned_Inr3)
qed

lemma encode_huge_number_overflow:
  assumes "unicode_text L v = Some t" and "2 ^ 32 \<le> length t"
  shows "encode_huge_number L v = raise StructError"
proof -
  have "2 ^ (8 * 4) \<le> length t" using assms(2) by simp
  then have "pack_I (int (length t)) = Inl StructError"
    unfolding pack_I_def by (rule pack_unsigned_overflow)
  moreover have "\<not> length t < 255" using assms(2) by simp
  ultimately show ?thesis using assms(1) by (simp add: encode_huge_number_def returned_Inl2)
qed

lemma as_int_unicode_text:
  "as_int v = Some n \<Longrightarrow> \<not> is_byte n \<Longrightarrow> unicode_text L v = Some (int_text n)"
  by (induction v rule: as_int.induct) (auto simp: is_byte_def)

lemma range_predicates_fits:
  "is_byte n = fits 1 n" "is_int16 n = fits 2 n" "is_int32 n = fits 4 n" "is_int64 n = fits 8 n"
  by (simp_all add: is_byte_def is_int16_def is_int32_def is_int64_def fits_def)


subsection \<open>Strings and huge numbers\<close>

lemma encode_str_short:
  assumes "str_bytes v = Some bs" and "length bs < 255"
  shows "encode_str v = ok [MARKER_s, be_bytes 1 (int (length bs)), bs]"
proof -
  have "length bs < 2 ^ (8 * 1)" using assms(2) by simp
  then have "pack_B (int (length bs)) = Inr (be_bytes 1 (int (length bs)))"
    unfolding pack_B_def by (rule pack_unsigned_in_range)
  then show ?thesis using assms by (simp add: encode_str_def returned_Inr3)
qed

lemma encode_str_long:
  assumes "str_bytes v = Some bs" and "255 \<le> length bs" and "length bs < 2 ^ 32"
  shows "encode_str v = ok [MARKER_S, be_bytes 4 (int (length bs)), bs]"
proof -
  have "length bs < 2 ^ (8 * 4)" using assms(3) by simp
  then have "pack_I (int (length bs)) = Inr (be_bytes 4 (int (length bs)))"
    unfolding pack_I_def by (rule pack_unsigned_in_range)
  then show ?thesis using assms by (simp add: encode_str_def returned_Inr3)
qed

lemma encode_str_overflow:
  assumes "str_bytes v = Some bs" and "2 ^ 32 \<le> length bs"
  shows "encode_str v = raise StructError"
proof -
  have "2 ^ (8 * 4) \<le> length bs" using assms(2) by simp
  then have "pack_I (int (length bs)) = Inl StructError"
    unfolding pack_I_def by (rule pack_unsigned_overflow)
  moreover have "\<not> length bs < 255" using assms(2) by simp
  ultimately show ?thesis using assms(1) by (simp add: encode_str_def returned_Inl2)
qed

lemma length_field_1:
  "n < 255 \<Longrightarrow> be_unsigned (be_bytes 1 (int n)) = int n"
  "n < 255 \<Longrightarrow> be_unsigned (be_bytes (Suc 0) (int n)) = int n"
  using be_unsigned_be_bytes_nat [of n 1] by simp_all

lemma length_field_4: "n < 2 ^ 32 \<Longrightarrow> be_unsigned (be_bytes 4 (int n)) = int n"
  by (rule be_unsigned_be_bytes_nat) simp

lemma utf8_ascii: "\<forall>c\<in>set cs. c < 0x80 \<Longrightarrow> utf8 cs = map of_nat cs"
  by (induction cs) (simp_all add: utf8_def utf8_char_def)

text \<open>
  C5, as the code has it. A string of fewer than 255 bytes (the UTF-8 bytes of a
  \<^verbatim>\<open>unicode\<close>) is the marker s, a one-byte length and the bytes; from 255 bytes up to
  \<open>2 ^ 32 - 1\<close> it is the marker S, a four-byte big-endian length and the bytes. From
  \<open>2 ^ 32\<close> bytes on, \<^verbatim>\<open>struct.pack('>I', length)\<close> raises \<^verbatim>\<open>struct.error\<close> and nothing
  is returned. The same holds for a huge number, by the byte length of its decimal text,
  with the markers h and H.
\<close>

theorem length_prefix_threshold:
  "(str_bytes v = Some bs \<longrightarrow>
      (length bs < 255 \<longrightarrow>
         (\<exists>len. encode_str v = ok [MARKER_s, len, bs] \<and> length len = 1 \<and>
                be_unsigned len = int (length bs))) \<and>
      (255 \<le> length bs \<longrightarrow> length bs < 2 ^ 32 \<longrightarrow>
         (\<exists>len. encode_str v = ok [MARKER_S, len, bs] \<and> length len = 4 \<and>
                be_unsigned len = int (length bs))) \<and>
      (2 ^ 32 \<le> length bs \<longrightarrow> encode_str v = raise StructError)) \<and>
   (unicode_text L v = Some t \<longrightarrow>
      (length t < 255 \<longrightarrow>
         (\<exists>len. encode_huge_number L v = ok [MARKER_h, len, t] \<and> length len = 1 \<and>
                be_unsigned len = int (length t))) \<and>
      (255 \<le> length t \<longrightarrow> length t < 2 ^ 32 \<longrightarrow>
         (\<exists>len. encode_huge_number L v = ok [MARKER_H, len, t] \<and> length len = 4 \<and>
                be_unsigned len = int (length t))) \<and>
      (2 ^ 32 \<le> length t \<longrightarrow> encode_huge_number L v = raise StructError))"
proof (intro conjI impI)
  assume s: "str_bytes v = Some bs"
  show "\<exists>len. encode_str v = ok [MARKER_s, len, bs] \<and> length len = 1 \<and>
          be_unsigned len = int (length bs)" if "length bs < 255"
    using encode_str_short [OF s that] length_field_1(1) [OF that] by auto
  show "\<exists>len. encode_str v = ok [MARKER_S, len, bs] \<and> length len = 4 \<and>
          be_unsigned len = int (length bs)" if "255 \<le> length bs" "length bs < 2 ^ 32"
    using encode_str_long [OF s that] length_field_4 [OF that(2)] by auto
  show "encode_str v = raise StructError" if "2 ^ 32 \<le> length bs"
    using s that by (rule encode_str_overflow)
next
  assume u: "unicode_text L v = Some t"
  show "\<exists>len. encode_huge_number L v = ok [MARKER_h, len, t] \<and> length len = 1 \<and>
          be_unsigned len = int (length t)" if "length t < 255"
    using encode_huge_number_short [OF u that] length_field_1(1) [OF that] by auto
  show "\<exists>len. encode_huge_number L v = ok [MARKER_H, len, t] \<and> length len = 4 \<and>
          be_unsigned len = int (length t)" if "255 \<le> length t" "length t < 2 ^ 32"
    using encode_huge_number_long [OF u that] length_field_4 [OF that(2)] by auto
  show "encode_huge_number L v = raise StructError" if "2 ^ 32 \<le> length t"
    using u that by (rule encode_huge_number_overflow)
qed

theorem length_prefix_threshold_witness:
  "str_bytes (StrV [0x68, 0x69]) = Some [0x68, 0x69] \<and>
   encode_str (StrV [0x68, 0x69]) = ok [MARKER_s, [2], [0x68, 0x69]] \<and>
   be_unsigned [2] = 2 \<and>
   str_bytes (UnicodeV (replicate 300 0x61)) = Some (replicate 300 0x61) \<and>
   encode_str (UnicodeV (replicate 300 0x61)) = ok [MARKER_S, [0, 0, 1, 0x2C], replicate 300 0x61] \<and>
   be_unsigned [0, 0, 1, 0x2C] = 300 \<and>
   unicode_text zero_lib (DecimalV [0x31, 0x2E, 0x35]) = Some [0x31, 0x2E, 0x35] \<and>
   encode_huge_number zero_lib (DecimalV [0x31, 0x2E, 0x35]) = ok [MARKER_h, [3], [0x31, 0x2E, 0x35]]"
proof -
  have u: "utf8 (replicate 300 0x61) = replicate 300 0x61"
    by (simp add: utf8_ascii)
  show ?thesis
    using length_prefix_threshold [of "StrV [0x68, 0x69]" "[0x68, 0x69]" zero_lib "[]"]
      length_prefix_threshold [of "UnicodeV (replicate 300 0x61)" "replicate 300 0x61" zero_lib "[]"]
      length_prefix_threshold [of "DecimalV [0x31, 0x2E, 0x35]" "[]" zero_lib "[0x31, 0x2E, 0x35]"]
    by (simp add: u encode_str_def encode_huge_number_def returned_def ok_def pack_B_def pack_I_def
          pack_unsigned_def pack_s_def be_bytes_1 be_bytes_4 be_unsigned_def)
qed

text \<open>
  The claim as the specification states it, with the long form for every string of 255
  bytes or more, fails for a \<^verbatim>\<open>str\<close> of \<open>2 ^ 32\<close> bytes: no chunk is returned.
\<close>

theorem encode_str_four_gigabytes_counterexample:
  "str_bytes (StrV (replicate (2 ^ 32) 0)) = Some (replicate (2 ^ 32) 0) \<and>
   length (replicate (2 ^ 32) (0 :: byte)) = 2 ^ 32 \<and>
   encode_str (StrV (replicate (2 ^ 32) 0)) = ([], Some StructError)"
proof -
  have "encode_str (StrV (replicate (2 ^ 32) 0)) = raise StructError"
    by (rule encode_str_overflow [where bs = "replicate (2 ^ 32) 0"]) simp_all
  then show ?thesis by (simp add: raise_def)
qed

subsection \<open>Integers\<close>

lemma unat_digit:
  "d < 10 \<Longrightarrow> unat (of_nat (48 + d) :: byte) = 48 + d"
  "d < 10 \<Longrightarrow> unat (48 + of_nat d :: byte) = 48 + d"
proof -
  assume d: "d < 10"
  have "unat (of_nat (48 + d) :: byte) = (48 + d) mod 256"
    by (simp only: unat_of_nat) simp
  then show 1: "unat (of_nat (48 + d) :: byte) = 48 + d"
    using d by simp
  have "(48 + of_nat d :: byte) = of_nat (48 + d)"
    by simp
  then show "unat (48 + of_nat d :: byte) = 48 + d"
    using 1 by simp
qed

lemma read_nat_snoc: "read_nat (ds @ [c]) = read_nat ds * 10 + (unat c - 48)"
  by (simp add: read_nat_def)

lemma nat_digits_nonempty: "nat_digits n \<noteq> []"
  by (subst nat_digits.simps) simp

lemma nat_digits_digits: "list_all is_digit (nat_digits n)"
proof (induction n rule: nat_digits.induct)
  case (1 n)
  show ?case
  proof (cases "n < 10")
    case True
    then show ?thesis
      by (subst nat_digits.simps) (simp add: is_digit_def unat_digit)
  next
    case False
    have "is_digit (of_nat (48 + n mod 10))"
      by (simp add: is_digit_def unat_digit)
    then show ?thesis
      using False "1.IH" by (subst nat_digits.simps) simp
  qed
qed

lemma read_nat_nat_digits: "read_nat (nat_digits n) = n"
proof (induction n rule: nat_digits.induct)
  case (1 n)
  show ?case
  proof (cases "n < 10")
    case True
    then show ?thesis
      by (subst nat_digits.simps) (simp add: read_nat_def unat_digit)
  next
    case False
    then show ?thesis
      using "1.IH" by (subst nat_digits.simps) (simp add: read_nat_snoc unat_digit)
  qed
qed

lemma hd_nat_digits: "0 < n \<Longrightarrow> hd (nat_digits n) \<noteq> 48"
proof (induction n rule: nat_digits.induct)
  case (1 n)
  show ?case
  proof (cases "n < 10")
    case True
    have "unat (of_nat (48 + n) :: byte) \<noteq> unat (48 :: byte)"
      using True "1.prems" by (simp add: unat_digit)
    then have "(of_nat (48 + n) :: byte) \<noteq> 48" by auto
    then show ?thesis
      using True by (subst nat_digits.simps) simp
  next
    case False
    then have "0 < n div 10" by simp
    then have "hd (nat_digits (n div 10)) \<noteq> 48" using False "1.IH" by simp
    then show ?thesis
      using False nat_digits_nonempty [of "n div 10"] by (subst nat_digits.simps) simp
  qed
qed

lemma canonical_nat_digits: "canonical (nat_digits n)"
proof (cases "n = 0")
  case True
  then show ?thesis
    by (subst nat_digits.simps) (simp add: canonical_def is_digit_def)
next
  case False
  then show ?thesis
    by (simp add: canonical_def nat_digits_nonempty nat_digits_digits hd_nat_digits)
qed

lemma is_decimal_of_int_text: "is_decimal_of (int_text n) n"
  by (simp add: is_decimal_of_def int_text_def canonical_nat_digits read_nat_nat_digits)

lemma digit_of_unat: "is_digit c \<Longrightarrow> of_nat (48 + (unat c - 48)) = c"
  by (simp add: is_digit_def del: of_nat_add)

lemma nat_digits_read_nat: "canonical ds \<Longrightarrow> nat_digits (read_nat ds) = ds"
proof (induction ds rule: rev_induct)
  case Nil
  then show ?case by (simp add: canonical_def)
next
  case (snoc c ds)
  from snoc.prems have c: "is_digit c" and all: "list_all is_digit ds"
    by (simp_all add: canonical_def)
  define d where "d = unat c - 48"
  have "48 \<le> unat c" "unat c \<le> 57"
    using c by (simp_all add: is_digit_def)
  then have "d < 10" unfolding d_def by arith
  moreover have "of_nat (48 + d) = c"
    unfolding d_def by (rule digit_of_unat [OF c])
  ultimately have d: "d < 10" "of_nat (48 + d) = c" by blast+
  show ?case
  proof (cases "ds = []")
    case True
    have "nat_digits d = [of_nat (48 + d)]"
      using d(1) by (subst nat_digits.simps) simp
    then show ?thesis
      using True d(2) by (simp add: read_nat_def d_def del: of_nat_add)
  next
    case False
    then have hd: "hd ds \<noteq> 48"
      using snoc.prems by (auto simp: canonical_def)
    then have can: "canonical ds"
      using False all by (simp add: canonical_def)
    then have IH: "nat_digits (read_nat ds) = ds" by (rule snoc.IH)
    have "read_nat ds \<noteq> 0"
    proof
      assume "read_nat ds = 0"
      then have "ds = nat_digits 0" using IH by simp
      then have "ds = [48]" by (subst (asm) nat_digits.simps) simp
      then show False using hd by simp
    qed
    then have big: "\<not> read_nat ds * 10 + d < 10" by simp
    have "nat_digits (read_nat ds * 10 + d) =
        nat_digits ((read_nat ds * 10 + d) div 10) @ [of_nat (48 + (read_nat ds * 10 + d) mod 10)]"
      using big by (subst nat_digits.simps) simp
    also have "(read_nat ds * 10 + d) div 10 = read_nat ds"
      using d(1) by simp
    also have "(read_nat ds * 10 + d) mod 10 = d"
      using d(1) by simp
    finally show ?thesis
      using IH d(2) by (simp add: read_nat_snoc d_def del: of_nat_add)
  qed
qed

text \<open>
  The canonical decimal text of an integer is unique, so \<open>is_decimal_of t n\<close> fixes \<open>t\<close>.
\<close>

lemma decimal_text_unique: "is_decimal_of t n \<Longrightarrow> t = int_text n"
proof (cases "n < 0")
  case True
  assume "is_decimal_of t n"
  then have t: "t \<noteq> []" "hd t = of_char CHR ''-''" "canonical (tl t)" "read_nat (tl t) = nat (- n)"
    using True by (auto simp: is_decimal_of_def)
  have "tl t = nat_digits (nat (- n))"
    using nat_digits_read_nat [OF t(3)] t(4) by simp
  then have "t = of_char CHR ''-'' # nat_digits (nat (- n))"
    using t(1,2) by (cases t) simp_all
  then show ?thesis using True by (simp add: int_text_def)
next
  case False
  assume "is_decimal_of t n"
  then have t: "canonical t" "read_nat t = nat n"
    using False by (auto simp: is_decimal_of_def)
  show ?thesis
    using nat_digits_read_nat [OF t(1)] t(2) False by (simp add: int_text_def)
qed


lemma encode_number_out_of_range:
  assumes "as_int v = Some n" and "\<not> fits 8 n"
  shows "encode_number L v = encode_huge_number L v" and "unicode_text L v = Some (int_text n)"
proof -
  from assms(2) have no: "\<not> fits 1 n" "\<not> fits 2 n" "\<not> fits 4 n"
    by (auto simp: fits_def)
  show "encode_number L v = encode_huge_number L v"
    using assms no by (simp add: encode_number_def range_predicates_fits)
  show "unicode_text L v = Some (int_text n)"
    using assms(1) no(1) by (simp add: as_int_unicode_text range_predicates_fits)
qed

lemma length_nat_digits_pow10: "length (nat_digits (10 ^ k)) = Suc k"
proof (induction k)
  case 0
  show ?case by (subst nat_digits.simps) simp
next
  case (Suc k)
  have "\<not> (10::nat) ^ Suc k < 10" by simp
  then have "nat_digits (10 ^ Suc k) =
      nat_digits (10 ^ Suc k div 10) @ [of_nat (48 + 10 ^ Suc k mod 10)]"
    by (subst nat_digits.simps) (simp del: power_Suc)
  then show ?case using Suc.IH by simp
qed

lemma length_int_text_pow10: "length (int_text (10 ^ k)) = Suc k"
  by (simp add: int_text_def nat_power_eq length_nat_digits_pow10)

lemma not_fits_pow10: "19 \<le> k \<Longrightarrow> \<not> fits 8 (10 ^ k)"
proof -
  assume "19 \<le> k"
  then have "(10::int) ^ 19 \<le> 10 ^ k"
    by (intro power_increasing) simp_all
  moreover have "(2::int) ^ 63 - 1 < 10 ^ 19" by simp
  ultimately have "(2::int) ^ 63 - 1 < 10 ^ k" by linarith
  then show ?thesis by (simp add: fits_def)
qed

lemma encode_number_pow10_overflow:
  assumes "2 ^ 32 \<le> k"
  shows "encode_number L (LongV (10 ^ k)) = ([], Some StructError)"
proof -
  have "19 \<le> k" using assms by simp
  then have nf: "\<not> fits 8 (10 ^ k)" by (rule not_fits_pow10)
  have a: "as_int (LongV (10 ^ k)) = Some (10 ^ k)" by simp
  note out = encode_number_out_of_range [OF a nf, of L]
  have "2 ^ 32 \<le> length (int_text (10 ^ k))"
    using assms by (simp add: length_int_text_pow10)
  then have "encode_huge_number L (LongV (10 ^ k)) = raise StructError"
    by (rule encode_huge_number_overflow [OF out(2)])
  then show ?thesis by (simp add: out(1) raise_def)
qed

text \<open>
  C1, as the code has it. An integer within the signed 64-bit range is encoded in the
  narrowest of the widths 1, 2, 4 and 8 bytes whose signed range contains it: the chunks
  are the one-byte marker of that width (B, i, I or L) and a payload of that many bytes
  which, read as a big-endian two's-complement number, is the integer. An integer outside
  the 64-bit range is handed to \<open>encode_huge_number\<close>: with \<open>t\<close> its decimal text, the
  chunks are the marker h, a one-byte length and \<open>t\<close> when \<open>t\<close> has fewer than 255 bytes,
  and the marker H, a four-byte big-endian length and \<open>t\<close> from 255 bytes up to
  \<open>2 ^ 32 - 1\<close>. From \<open>2 ^ 32\<close> bytes on, \<^verbatim>\<open>struct.pack('>I', size)\<close> raises
  \<^verbatim>\<open>struct.error\<close> and nothing is returned.
\<close>

theorem encode_number_narrowest:
  assumes "as_int v = Some n"
  shows "(fits 8 n \<longrightarrow>
           (\<exists>w\<in>{1, 2, 4, 8}. fits w n \<and> (\<forall>u\<in>{1, 2, 4, 8}. fits u n \<longrightarrow> w \<le> u) \<and>
              (\<exists>p. encode_number L v = ok [int_marker w, p] \<and> length (int_marker w) = 1 \<and>
                   length p = w \<and> be_signed p = n))) \<and>
         (\<not> fits 8 n \<longrightarrow>
            encode_number L v = encode_huge_number L v \<and>
            (\<exists>t. is_decimal_of t n \<and>
               (length t < 255 \<longrightarrow>
                  (\<exists>len. encode_number L v = ok [MARKER_h, len, t] \<and> length len = 1 \<and>
                         be_unsigned len = int (length t))) \<and>
               (255 \<le> length t \<longrightarrow> length t < 2 ^ 32 \<longrightarrow>
                  (\<exists>len. encode_number L v = ok [MARKER_H, len, t] \<and> length len = 4 \<and>
                         be_unsigned len = int (length t))) \<and>
               (2 ^ 32 \<le> length t \<longrightarrow> encode_number L v = raise StructError)))"
proof (intro conjI impI)
  assume f8: "fits 8 n"
  have enc: "encode_number L v = ok [int_marker w, be_bytes w n]"
    if "w \<in> {1, 2, 4, 8}" "fits w n" "\<forall>u\<in>{1, 2, 4, 8}. u < w \<longrightarrow> \<not> fits u n" for w
    using that assms
    by (auto simp: encode_number_def range_predicates_fits int_marker_def returned_Inr2
          pack_b_def pack_h_def pack_i_def pack_q_def pack_signed_fits)
  consider (b) "fits 1 n" | (h) "\<not> fits 1 n" "fits 2 n" | (i) "\<not> fits 1 n" "\<not> fits 2 n" "fits 4 n"
    | (q) "\<not> fits 1 n" "\<not> fits 2 n" "\<not> fits 4 n" "fits 8 n"
    using f8 by blast
  then show "\<exists>w\<in>{1, 2, 4, 8}. fits w n \<and> (\<forall>u\<in>{1, 2, 4, 8}. fits u n \<longrightarrow> w \<le> u) \<and>
              (\<exists>p. encode_number L v = ok [int_marker w, p] \<and> length (int_marker w) = 1 \<and>
                   length p = w \<and> be_signed p = n)"
  proof cases
    case b
    then show ?thesis
      using enc [of 1] be_signed_be_bytes [of 1 n]
      by (intro bexI [of _ 1]) (auto simp: int_marker_def markers)
  next
    case h
    then show ?thesis
      using enc [of 2] be_signed_be_bytes [of 2 n]
      by (intro bexI [of _ 2]) (auto simp: int_marker_def markers)
  next
    case i
    then show ?thesis
      using enc [of 4] be_signed_be_bytes [of 4 n]
      by (intro bexI [of _ 4]) (auto simp: int_marker_def markers)
  next
    case q
    then show ?thesis
      using enc [of 8] be_signed_be_bytes [of 8 n]
      by (intro bexI [of _ 8]) (auto simp: int_marker_def markers)
  qed
next
  assume nf: "\<not> fits 8 n"
  note out = encode_number_out_of_range [OF assms nf, of L]
  show "encode_number L v = encode_huge_number L v" by (rule out(1))
  show "\<exists>t. is_decimal_of t n \<and>
               (length t < 255 \<longrightarrow>
                  (\<exists>len. encode_number L v = ok [MARKER_h, len, t] \<and> length len = 1 \<and>
                         be_unsigned len = int (length t))) \<and>
               (255 \<le> length t \<longrightarrow> length t < 2 ^ 32 \<longrightarrow>
                  (\<exists>len. encode_number L v = ok [MARKER_H, len, t] \<and> length len = 4 \<and>
                         be_unsigned len = int (length t))) \<and>
               (2 ^ 32 \<le> length t \<longrightarrow> encode_number L v = raise StructError)"
  proof (rule exI [of _ "int_text n"], intro conjI impI)
    show "is_decimal_of (int_text n) n" by (rule is_decimal_of_int_text)
    show "\<exists>len. encode_number L v = ok [MARKER_h, len, int_text n] \<and> length len = 1 \<and>
            be_unsigned len = int (length (int_text n))" if "length (int_text n) < 255"
      using encode_huge_number_short [OF out(2) that] length_field_1(1) [OF that]
      by (auto simp: out(1))
    show "\<exists>len. encode_number L v = ok [MARKER_H, len, int_text n] \<and> length len = 4 \<and>
            be_unsigned len = int (length (int_text n))"
      if "255 \<le> length (int_text n)" "length (int_text n) < 2 ^ 32"
      using encode_huge_number_long [OF out(2) that] length_field_4 [OF that(2)]
      by (auto simp: out(1))
    show "encode_number L v = raise StructError" if "2 ^ 32 \<le> length (int_text n)"
      using encode_huge_number_overflow [OF out(2) that] by (simp add: out(1))
  qed
qed


theorem encode_number_narrowest_witness:
  "as_int (IntV 30000) = Some 30000 \<and> fits 8 30000 \<and> fits 2 30000 \<and> \<not> fits 1 30000 \<and>
   encode_number zero_lib (IntV 30000) = ok [MARKER_i, [0x75, 0x30]] \<and>
   be_signed [0x75, 0x30] = 30000 \<and>
   as_int (LongV (2 ^ 63)) = Some (2 ^ 63) \<and> \<not> fits 8 (2 ^ 63) \<and>
   encode_number zero_lib (LongV (2 ^ 63)) =
     ok [MARKER_h, [19], map of_char ''9223372036854775808''] \<and>
   is_decimal_of (map of_char ''9223372036854775808'') (2 ^ 63)"
  using encode_number_narrowest [of "IntV 30000" 30000 zero_lib]
    encode_number_narrowest [of "LongV (2 ^ 63)" "2 ^ 63" zero_lib]
  by (simp add: fits_def encode_number_def is_byte_def is_int16_def is_int32_def is_int64_def
        encode_huge_number_def returned_def ok_def int_text_def nat_digits.simps
        pack_h_def pack_B_def pack_signed_def pack_unsigned_def pack_s_def
        be_bytes_1 be_bytes_2 be_signed_def be_unsigned_def
        is_decimal_of_def canonical_def read_nat_def is_digit_def)

text \<open>
  The claim as the specification states it, with a huge-number encoding for every integer
  outside the 64-bit range, fails for the integer \<open>10 ^ 2 ^ 32\<close>, whose decimal text has
  \<open>2 ^ 32 + 1\<close> bytes: no chunk is returned.
\<close>

theorem huge_integer_overflow_counterexample:
  "as_int (LongV (10 ^ 2 ^ 32)) = Some (10 ^ 2 ^ 32) \<and> \<not> fits 8 (10 ^ 2 ^ 32) \<and>
   length (int_text (10 ^ 2 ^ 32)) = Suc (2 ^ 32) \<and>
   encode_number zero_lib (LongV (10 ^ 2 ^ 32)) = ([], Some StructError)"
proof (intro conjI)
  show "as_int (LongV (10 ^ 2 ^ 32)) = Some (10 ^ 2 ^ 32)"
    by (rule as_int.simps)
  have "(19::nat) \<le> 2 ^ 32" by simp
  then show "\<not> fits 8 (10 ^ 2 ^ 32)"
    by (rule not_fits_pow10)
  show "length (int_text (10 ^ 2 ^ 32)) = Suc (2 ^ 32)"
    by (rule length_int_text_pow10)
  show "encode_number zero_lib (LongV (10 ^ 2 ^ 32)) = ([], Some StructError)"
    by (rule encode_number_pow10_overflow) (rule order_refl)
qed

subsection \<open>Floats\<close>

text \<open>
  The doubles that stand for the module's float literals are the nearest to the decimal
  numbers written: each lies within half a unit in its last place of the decimal, and
  \<^verbatim>\<open>1.8e308\<close> lies above the largest finite double by more than that, so it is read as
  infinity.
\<close>

lemma literal_doubles:
  "\<bar>(1130215461388593 / 2 ^ 176 :: rat) - 118 / 10 ^ 40\<bar> \<le> 1 / 2 ^ 179"
  "\<bar>(339999999999999996123846586046231871488 :: rat) - 34 * 10 ^ 37\<bar> \<le> 2 ^ 74"
  "\<bar>(4513570248753027 / 2 ^ 1074 :: rat) - 223 / 10 ^ 310\<bar> \<le> 1 / 2 ^ 1075"
  "(2 ^ 1024 - 2 ^ 970 :: rat) \<le> 18 * 10 ^ 307"
  by simp_all

lemma as_float_unicode_text: "as_float v = Some x \<Longrightarrow> unicode_text L v = Some (float_text L x)"
  by (induction v rule: as_float.induct) auto





subsection \<open>Traces, loops and the default registry\<close>

lemma seq_yield: "seq (yield c) t = (c # fst t, snd t)"
  by (simp add: seq_def yield_def)


lemma seq_raise: "seq (raise e) t = raise e"
  by (simp add: seq_def raise_def)

lemma seq_error: "snd t = Some e \<Longrightarrow> seq t u = t"
  by (simp add: seq_def)

lemma seq_no_error: "snd t = None \<Longrightarrow> seq t u = (fst t @ fst u, snd u)"
  by (simp add: seq_def)

lemma snd_seq: "snd (seq t u) = (case snd t of Some e \<Rightarrow> Some e | None \<Rightarrow> snd u)"
  by (simp add: seq_def split: option.splits)

lemma for_each_ok:
  "\<forall>x\<in>set xs. snd (rec x) = None \<Longrightarrow>
   for_each rec xs = ok (concat (map (\<lambda>x. fst (rec x)) xs))"
  by (induction xs) (simp_all add: seq_no_error ok_def)

lemma dict_loop_ok:
  "\<forall>(k, w)\<in>set kvs. isinstance k BaseString \<and> snd (rec k) = None \<and> snd (rec w) = None \<Longrightarrow>
   dict_loop rec kvs = ok (concat (map (\<lambda>(k, w). fst (rec k) @ fst (rec w)) kvs))"
  by (induction kvs) (auto simp: seq_no_error ok_def)

lemma iterated_loop_ok:
  "\<forall>(k, w)\<in>set kvs. isinstance k BaseString \<and> snd (rec (TupleV [k, w])) = None \<Longrightarrow>
   iterated_loop rec kvs = ok (concat (map (\<lambda>(k, w). fst (rec (TupleV [k, w]))) kvs))"
  by (induction kvs) (auto simp: seq_no_error ok_def)





lemma sized_header_short:
  "n < 255 \<Longrightarrow> seq (yield m) (of_result (pack_B (int n))) = ok [m, be_bytes 1 (int n)]"
proof -
  assume "n < 255"
  then have "n < 2 ^ (8 * 1)" by simp
  then have "pack_B (int n) = Inr (be_bytes 1 (int n))"
    unfolding pack_B_def by (rule pack_unsigned_in_range)
  then show ?thesis by (simp add: seq_def of_result_def yield_def ok_def)
qed

lemma sized_header_long:
  "n < 2 ^ 32 \<Longrightarrow> seq (yield m) (of_result (pack_I (int n))) = ok [m, be_bytes 4 (int n)]"
proof -
  assume "n < 2 ^ 32"
  then have "n < 2 ^ (8 * 4)" by simp
  then have "pack_I (int n) = Inr (be_bytes 4 (int n))"
    unfolding pack_I_def by (rule pack_unsigned_in_range)
  then show ?thesis by (simp add: seq_def of_result_def yield_def ok_def)
qed

lemma sized_header_overflow:
  "2 ^ 32 \<le> n \<Longrightarrow> seq (yield m) (of_result (pack_I (int n))) = ([m], Some StructError)"
proof -
  assume "2 ^ 32 \<le> n"
  then have "2 ^ (8 * 4) \<le> n" by simp
  then have "pack_I (int n) = Inl StructError"
    unfolding pack_I_def by (rule pack_unsigned_overflow)
  then show ?thesis by (simp add: seq_def yield_def of_result_def raise_def)
qed

lemma iterencode_handler:
  "get_handler self v = h \<Longrightarrow> iterencode L self v = run_handler L (iterencode L self) h v"
  by (simp add: iterencode.simps)

lemma seq_ok_ok: "seq (ok cs) (ok ds) = ok (cs @ ds)"
  by (simp add: seq_def ok_def)

lemma sized_header:
  "n < 2 ^ 32 \<Longrightarrow>
   (if n < 255 then seq (yield short) (of_result (pack_B (int n)))
    else seq (yield long) (of_result (pack_I (int n)))) =
   ok [if n < 255 then short else long, be_bytes (if n < 255 then 1 else 4) (int n)]"
  by (simp add: sized_header_short sized_header_long)

lemma encode_array_layout:
  assumes "seq_items v = Some xs" and "length xs < 2 ^ 32"
    and "\<forall>x\<in>set xs. snd (rec x) = None"
  shows "encode_array rec v =
           ok ([if length xs < 255 then MARKER_a else MARKER_A,
                be_bytes (if length xs < 255 then 1 else 4) (int (length xs))] @
               concat (map (\<lambda>x. fst (rec x)) xs))"
proof -
  have "encode_array rec v =
      seq (ok [if length xs < 255 then MARKER_a else MARKER_A,
               be_bytes (if length xs < 255 then 1 else 4) (int (length xs))])
          (for_each rec xs)"
    using assms(1) sized_header [OF assms(2), of MARKER_a MARKER_A]
    by (simp add: encode_array_def)
  then show ?thesis
    by (simp only: for_each_ok [OF assms(3)] seq_ok_ok)
qed

lemma encode_dict_layout:
  assumes "dict_items v = Some kvs" and "length kvs < 2 ^ 32"
    and "\<forall>(k, w)\<in>set kvs. isinstance k BaseString \<and> snd (rec k) = None \<and> snd (rec w) = None"
  shows "encode_dict rec v =
           ok ([if length kvs < 255 then MARKER_o else MARKER_O,
                be_bytes (if length kvs < 255 then 1 else 4) (int (length kvs))] @
               concat (map (\<lambda>(k, w). fst (rec k) @ fst (rec w)) kvs))"
proof -
  have "encode_dict rec v =
      seq (ok [if length kvs < 255 then MARKER_o else MARKER_O,
               be_bytes (if length kvs < 255 then 1 else 4) (int (length kvs))])
          (dict_loop rec kvs)"
    using assms(1) sized_header [OF assms(2), of MARKER_o MARKER_O]
    by (simp add: encode_dict_def)
  then show ?thesis
    by (simp only: dict_loop_ok [OF assms(3)] seq_ok_ok)
qed

lemma encode_array_overflow:
  assumes "seq_items v = Some xs" and "2 ^ 32 \<le> length xs"
  shows "encode_array rec v = ([MARKER_A], Some StructError)"
proof -
  have "\<not> length xs < 255" using assms(2) by simp
  then show ?thesis
    using assms by (simp add: encode_array_def sized_header_overflow seq_error)
qed

lemma encode_dict_overflow:
  assumes "dict_items v = Some kvs" and "2 ^ 32 \<le> length kvs"
  shows "encode_dict rec v = ([MARKER_O], Some StructError)"
proof -
  have "\<not> length kvs < 255" using assms(2) by simp
  then show ?thesis
    using assms by (simp add: encode_dict_def sized_header_overflow seq_error)
qed

lemma default_dispatch:
  "get_handler (init d None) NOOP = EncodeNoop"
  "get_handler (init d None) NoneV = EncodeNone"
  "get_handler (init d None) (BoolV t) = EncodeBool"
  "get_handler (init d None) (IntV i) = EncodeNumber"
  "get_handler (init d None) (LongV i) = EncodeNumber"
  "get_handler (init d None) (FloatV x) = EncodeFloat"
  "get_handler (init d None) (StrV bs) = EncodeStr"
  "get_handler (init d None) (UnicodeV cs) = EncodeStr"
  "get_handler (init d None) (TupleV xs) = EncodeArray"
  "get_handler (init d None) (ListV xs) = EncodeArray"
  "get_handler (init d None) (SetV xs) = EncodeArray"
  "get_handler (init d None) (FrozensetV xs) = EncodeArray"
  "get_handler (init d None) (DictKeysIterV xs) = EncodeGenerator"
  "get_handler (init d None) (DictValuesIterV xs) = EncodeGenerator"
  "get_handler (init d None) (DictItemsIterV kvs) = EncodeIteratedDict"
  "get_handler (init d None) (XRangeV js) = EncodeGenerator"
  "get_handler (init d None) (GeneratorV xs) = EncodeGenerator"
  "get_handler (init d None) (DictV kvs) = EncodeDict"
  "get_handler (init d None) (DecimalV t') = EncodeHugeNumber"
  by (simp_all add: get_handler_def init_def default_handlers_def dict_get_def
        isinstance_def issubclass_def)

lemmas eval_handlers =
  iterencode.simps default_dispatch encode_array_def encode_dict_def encode_generator_def
  encode_iterated_dict_def encode_number_def encode_str_def encode_none_def encode_noop_def
  encode_bool_def encode_huge_number_def returned_def seq_def yield_def ok_def raise_def
  of_result_def pack_B_def pack_I_def pack_b_def pack_h_def pack_unsigned_def pack_signed_def
  pack_s_def be_bytes_1 be_bytes_2 be_bytes_4 is_byte_def is_int16_def
  isinstance_def issubclass_def

subsection \<open>Sized containers\<close>

text \<open>
  C3, as the code has it. A sized array of fewer than \<open>2 ^ 32\<close> elements, all of which
  encode without an exception, is the marker a (fewer than 255 elements) or A, a length
  field of one or four bytes that reads back as the number of elements, and the chunks of
  every element in iteration order. A sized object with string keys is the same with the
  markers o and O, every entry being the chunks of its key followed by the chunks of its
  value. From \<open>2 ^ 32\<close> elements on, the long marker is yielded and
  \<^verbatim>\<open>struct.pack('>I', size)\<close> then raises \<^verbatim>\<open>struct.error\<close>.
\<close>

theorem sized_container_layout:
  "(get_handler self v = EncodeArray \<longrightarrow> seq_items v = Some xs \<longrightarrow>
      (length xs < 2 ^ 32 \<longrightarrow> (\<forall>x\<in>set xs. snd (iterencode L self x) = None) \<longrightarrow>
         (\<exists>len. iterencode L self v =
                  ok ([if length xs < 255 then MARKER_a else MARKER_A, len] @
                      concat (map (\<lambda>x. fst (iterencode L self x)) xs)) \<and>
                length len = (if length xs < 255 then 1 else 4) \<and>
                be_unsigned len = int (length xs))) \<and>
      (2 ^ 32 \<le> length xs \<longrightarrow> iterencode L self v = ([MARKER_A], Some StructError))) \<and>
   (get_handler self v = EncodeDict \<longrightarrow> dict_items v = Some kvs \<longrightarrow>
      (length kvs < 2 ^ 32 \<longrightarrow>
       (\<forall>(k, w)\<in>set kvs. isinstance k BaseString \<and> snd (iterencode L self k) = None \<and>
                            snd (iterencode L self w) = None) \<longrightarrow>
         (\<exists>len. iterencode L self v =
                  ok ([if length kvs < 255 then MARKER_o else MARKER_O, len] @
                      concat (map (\<lambda>(k, w). fst (iterencode L self k) @ fst (iterencode L self w)) kvs)) \<and>
                length len = (if length kvs < 255 then 1 else 4) \<and>
                be_unsigned len = int (length kvs))) \<and>
      (2 ^ 32 \<le> length kvs \<longrightarrow> iterencode L self v = ([MARKER_O], Some StructError)))"
proof (intro conjI impI)
  assume h: "get_handler self v = EncodeArray" and s: "seq_items v = Some xs"
  have run: "iterencode L self v = encode_array (iterencode L self) v"
    using iterencode_handler [OF h] by simp
  show "\<exists>len. iterencode L self v =
                  ok ([if length xs < 255 then MARKER_a else MARKER_A, len] @
                      concat (map (\<lambda>x. fst (iterencode L self x)) xs)) \<and>
                length len = (if length xs < 255 then 1 else 4) \<and>
                be_unsigned len = int (length xs)"
    if n: "length xs < 2 ^ 32" and e: "\<forall>x\<in>set xs. snd (iterencode L self x) = None"
  proof (intro exI conjI)
    show "iterencode L self v =
        ok ([if length xs < 255 then MARKER_a else MARKER_A,
             be_bytes (if length xs < 255 then 1 else 4) (int (length xs))] @
            concat (map (\<lambda>x. fst (iterencode L self x)) xs))"
      unfolding run by (rule encode_array_layout [OF s n e])
    show "length (be_bytes (if length xs < 255 then 1 else 4) (int (length xs))) =
        (if length xs < 255 then 1 else 4)"
      by simp
    show "be_unsigned (be_bytes (if length xs < 255 then 1 else 4) (int (length xs))) = int (length xs)"
      using n by (simp add: length_field_1 length_field_4)
  qed
  show "iterencode L self v = ([MARKER_A], Some StructError)" if "2 ^ 32 \<le> length xs"
    unfolding run using s that by (rule encode_array_overflow)
next
  assume h: "get_handler self v = EncodeDict" and s: "dict_items v = Some kvs"
  have run: "iterencode L self v = encode_dict (iterencode L self) v"
    using iterencode_handler [OF h] by simp
  show "\<exists>len. iterencode L self v =
                  ok ([if length kvs < 255 then MARKER_o else MARKER_O, len] @
                      concat (map (\<lambda>(k, w). fst (iterencode L self k) @ fst (iterencode L self w)) kvs)) \<and>
                length len = (if length kvs < 255 then 1 else 4) \<and>
                be_unsigned len = int (length kvs)"
    if n: "length kvs < 2 ^ 32"
      and e: "\<forall>(k, w)\<in>set kvs. isinstance k BaseString \<and> snd (iterencode L self k) = None \<and>
                            snd (iterencode L self w) = None"
  proof (intro exI conjI)
    show "iterencode L self v =
        ok ([if length kvs < 255 then MARKER_o else MARKER_O,
             be_bytes (if length kvs < 255 then 1 else 4) (int (length kvs))] @
            concat (map (\<lambda>(k, w). fst (iterencode L self k) @ fst (iterencode L self w)) kvs))"
      unfolding run by (rule encode_dict_layout [OF s n e])
    show "length (be_bytes (if length kvs < 255 then 1 else 4) (int (length kvs))) =
        (if length kvs < 255 then 1 else 4)"
      by simp
    show "be_unsigned (be_bytes (if length kvs < 255 then 1 else 4) (int (length kvs))) = int (length kvs)"
      using n by (simp add: length_field_1 length_field_4)
  qed
  show "iterencode L self v = ([MARKER_O], Some StructError)" if "2 ^ 32 \<le> length kvs"
    unfolding run using s that by (rule encode_dict_overflow)
qed

theorem sized_container_layout_witness:
  "get_handler (init None None) (ListV [IntV 1, IntV 2, IntV 3]) = EncodeArray \<and>
   iterencode zero_lib (init None None) (ListV [IntV 1, IntV 2, IntV 3]) =
     ok [MARKER_a, [3], MARKER_B, [1], MARKER_B, [2], MARKER_B, [3]] \<and>
   get_handler (init None None) (DictV [(StrV [0x61], IntV 1)]) = EncodeDict \<and>
   iterencode zero_lib (init None None) (DictV [(StrV [0x61], IntV 1)]) =
     ok [MARKER_o, [1], MARKER_s, [1], [0x61], MARKER_B, [1]]"
  using sized_container_layout [of "init None None" "ListV [IntV 1, IntV 2, IntV 3]"
      "[IntV 1, IntV 2, IntV 3]" zero_lib "[]"]
    sized_container_layout [of "init None None" "DictV [(StrV [0x61], IntV 1)]" "[]" zero_lib
      "[(StrV [0x61], IntV 1)]"]
  by (simp add: eval_handlers)

text \<open>
  The claim as the specification states it, with a four-byte length for every count of
  255 or more, fails for a list of \<open>2 ^ 32\<close> elements: only the marker A is produced.
\<close>

theorem sized_array_overflow_counterexample:
  "get_handler (init None None) (ListV (replicate (2 ^ 32) NoneV)) = EncodeArray \<and>
   seq_items (ListV (replicate (2 ^ 32) NoneV)) = Some (replicate (2 ^ 32) NoneV) \<and>
   length (replicate (2 ^ 32) NoneV) = 2 ^ 32 \<and>
   iterencode zero_lib (init None None) (ListV (replicate (2 ^ 32) NoneV)) =
     ([MARKER_A], Some StructError)"
proof -
  have "encode_array (iterencode zero_lib (init None None)) (ListV (replicate (2 ^ 32) NoneV)) =
      ([MARKER_A], Some StructError)"
    by (rule encode_array_overflow [where xs = "replicate (2 ^ 32) NoneV"]) simp_all
  then show ?thesis
    by (simp add: iterencode_handler [OF default_dispatch(10)] default_dispatch)
qed


subsection \<open>Unsized containers\<close>


lemma encode_generator_layout:
  assumes "gen_items v = Some xs" and "\<forall>x\<in>set xs. snd (rec x) = None"
  shows "encode_generator rec v =
           ok ([MARKER_a, MARKER_FF] @ concat (map (\<lambda>x. fst (rec x)) xs) @ [MARKER_E])"
  using assms(1) for_each_ok [OF assms(2)]
  by (simp add: encode_generator_def seq_def yield_def ok_def)

lemma encode_iterated_dict_layout:
  assumes "iter_pairs v = Some kvs"
    and "\<forall>(k, w)\<in>set kvs. isinstance k BaseString \<and> snd (rec (TupleV [k, w])) = None"
  shows "encode_iterated_dict rec v =
           ok ([MARKER_o, MARKER_FF] @ concat (map (\<lambda>(k, w). fst (rec (TupleV [k, w]))) kvs) @
               [MARKER_E])"
  using assms(1) iterated_loop_ok [OF assms(2)]
  by (simp add: encode_iterated_dict_def seq_def yield_def ok_def)

lemma for_each_first_error:
  "\<forall>y\<in>set pre. snd (rec y) = None \<Longrightarrow> snd (rec x) = Some e \<Longrightarrow>
   for_each rec (pre @ x # post) = (concat (map (\<lambda>y. fst (rec y)) pre) @ fst (rec x), Some e)"
proof (induction pre)
  case Nil
  then show ?case by (cases "rec x") (simp add: seq_def)
next
  case (Cons y pre)
  then show ?case by (simp add: seq_no_error)
qed

lemma iterated_loop_first_error:
  "\<forall>(k', w')\<in>set pre. isinstance k' BaseString \<and> snd (rec (TupleV [k', w'])) = None \<Longrightarrow>
   isinstance k BaseString \<Longrightarrow> snd (rec (TupleV [k, w])) = Some e \<Longrightarrow>
   iterated_loop rec (pre @ (k, w) # post) =
     (concat (map (\<lambda>(k', w'). fst (rec (TupleV [k', w']))) pre) @ fst (rec (TupleV [k, w])), Some e)"
proof (induction pre)
  case Nil
  then show ?case by (cases "rec (TupleV [k, w])") (simp add: seq_def)
next
  case (Cons p pre)
  then show ?case by (cases p) (simp add: seq_no_error)
qed

text \<open>
  C4, as the code has it. An unsized array, whose producer yields the finite sequence
  \<open>xs\<close> and whose items all encode without an exception, is the marker a, the byte 0xFF
  in the place of a length, the chunks of every item in production order, and the end
  marker E. An unsized object, from \<^verbatim>\<open>dict.iteritems()\<close>, with string keys, is the marker
  o, the byte 0xFF, the chunks that \<^verbatim>\<open>iterencode\<close> gives for every produced item, the
  pair \<^verbatim>\<open>(key, value)\<close>, and E. When an item raises, the stream is the two header
  chunks, the chunks of the items before it and what the failing item yielded before its
  exception; no E follows.
\<close>

theorem unsized_container_layout:
  "(get_handler self v = EncodeGenerator \<longrightarrow> gen_items v = Some xs \<longrightarrow>
      ((\<forall>x\<in>set xs. snd (iterencode L self x) = None) \<longrightarrow>
         iterencode L self v =
           ok ([MARKER_a, MARKER_FF] @ concat (map (\<lambda>x. fst (iterencode L self x)) xs) @
               [MARKER_E])) \<and>
      (xs = pre @ x # post \<longrightarrow> (\<forall>y\<in>set pre. snd (iterencode L self y) = None) \<longrightarrow>
       snd (iterencode L self x) = Some e \<longrightarrow>
         iterencode L self v =
           ([MARKER_a, MARKER_FF] @ concat (map (\<lambda>y. fst (iterencode L self y)) pre) @
            fst (iterencode L self x), Some e))) \<and>
   (get_handler self v = EncodeIteratedDict \<longrightarrow> iter_pairs v = Some kvs \<longrightarrow>
      ((\<forall>(k, w)\<in>set kvs. isinstance k BaseString \<and>
                            snd (iterencode L self (TupleV [k, w])) = None) \<longrightarrow>
         iterencode L self v =
           ok ([MARKER_o, MARKER_FF] @
               concat (map (\<lambda>(k, w). fst (iterencode L self (TupleV [k, w]))) kvs) @
               [MARKER_E])) \<and>
      (kvs = kpre @ (k, w) # kpost \<longrightarrow>
       (\<forall>(k', w')\<in>set kpre. isinstance k' BaseString \<and>
                               snd (iterencode L self (TupleV [k', w'])) = None) \<longrightarrow>
       isinstance k BaseString \<longrightarrow> snd (iterencode L self (TupleV [k, w])) = Some e \<longrightarrow>
         iterencode L self v =
           ([MARKER_o, MARKER_FF] @
            concat (map (\<lambda>(k', w'). fst (iterencode L self (TupleV [k', w']))) kpre) @
            fst (iterencode L self (TupleV [k, w])), Some e)))"
proof (intro conjI impI)
  assume h: "get_handler self v = EncodeGenerator" and g: "gen_items v = Some xs"
    and e: "\<forall>x\<in>set xs. snd (iterencode L self x) = None"
  have "iterencode L self v = encode_generator (iterencode L self) v"
    using iterencode_handler [OF h] by simp
  then show "iterencode L self v =
      ok ([MARKER_a, MARKER_FF] @ concat (map (\<lambda>x. fst (iterencode L self x)) xs) @ [MARKER_E])"
    using encode_generator_layout [OF g e] by simp
next
  assume h: "get_handler self v = EncodeGenerator" and g: "gen_items v = Some xs"
    and xs: "xs = pre @ x # post"
    and p: "\<forall>y\<in>set pre. snd (iterencode L self y) = None"
    and e: "snd (iterencode L self x) = Some e"
  have "iterencode L self v = encode_generator (iterencode L self) v"
    using iterencode_handler [OF h] by simp
  then show "iterencode L self v =
      ([MARKER_a, MARKER_FF] @ concat (map (\<lambda>y. fst (iterencode L self y)) pre) @
       fst (iterencode L self x), Some e)"
    using g by (simp add: encode_generator_def xs for_each_first_error [OF p e] seq_def yield_def)
next
  assume h: "get_handler self v = EncodeIteratedDict" and g: "iter_pairs v = Some kvs"
    and e: "\<forall>(k, w)\<in>set kvs. isinstance k BaseString \<and>
                           snd (iterencode L self (TupleV [k, w])) = None"
  have "iterencode L self v = encode_iterated_dict (iterencode L self) v"
    using iterencode_handler [OF h] by simp
  then show "iterencode L self v =
      ok ([MARKER_o, MARKER_FF] @
          concat (map (\<lambda>(k, w). fst (iterencode L self (TupleV [k, w]))) kvs) @ [MARKER_E])"
    using encode_iterated_dict_layout [OF g e] by simp
next
  assume h: "get_handler self v = EncodeIteratedDict" and g: "iter_pairs v = Some kvs"
    and kvs: "kvs = kpre @ (k, w) # kpost"
    and p: "\<forall>(k', w')\<in>set kpre. isinstance k' BaseString \<and>
                               snd (iterencode L self (TupleV [k', w'])) = None"
    and s: "isinstance k BaseString"
    and e: "snd (iterencode L self (TupleV [k, w])) = Some e"
  have "iterencode L self v = encode_iterated_dict (iterencode L self) v"
    using iterencode_handler [OF h] by simp
  then show "iterencode L self v =
      ([MARKER_o, MARKER_FF] @
       concat (map (\<lambda>(k', w'). fst (iterencode L self (TupleV [k', w']))) kpre) @
       fst (iterencode L self (TupleV [k, w])), Some e)"
    using g
    by (simp add: encode_iterated_dict_def kvs iterated_loop_first_error [OF p s e] seq_def
          yield_def)
qed

theorem unsized_container_layout_witness:
  "get_handler (init None None) (GeneratorV [IntV 1, IntV 2]) = EncodeGenerator \<and>
   iterencode zero_lib (init None None) (GeneratorV [IntV 1, IntV 2]) =
     ok [MARKER_a, MARKER_FF, MARKER_B, [1], MARKER_B, [2], MARKER_E] \<and>
   get_handler (init None None) (DictItemsIterV [(StrV [0x61], IntV 1)]) = EncodeIteratedDict \<and>
   iterencode zero_lib (init None None) (DictItemsIterV [(StrV [0x61], IntV 1)]) =
     ok [MARKER_o, MARKER_FF, MARKER_a, [2], MARKER_s, [1], [0x61], MARKER_B, [1], MARKER_E]"
  using unsized_container_layout [where self = "init None None"
      and v = "GeneratorV [IntV 1, IntV 2]" and xs = "[IntV 1, IntV 2]" and L = zero_lib]
    unsized_container_layout [where self = "init None None"
      and v = "DictItemsIterV [(StrV [0x61], IntV 1)]" and L = zero_lib
      and kvs = "[(StrV [0x61], IntV 1)]"]
  by (simp add: eval_handlers)

text \<open>
  The claim as the specification states it, with the end marker for every finite
  producer, fails for a generator that yields 1, an \<^verbatim>\<open>object()\<close> and 2: the stream stops
  after the encoding of 1 with the \<^verbatim>\<open>TypeError\<close> of the second item, and no E is written.
\<close>

theorem failing_item_counterexample:
  "get_handler (init None None) (GeneratorV [IntV 1, ObjectV, IntV 2]) = EncodeGenerator \<and>
   gen_items (GeneratorV [IntV 1, ObjectV, IntV 2]) = Some [IntV 1, ObjectV, IntV 2] \<and>
   iterencode zero_lib (init None None) (GeneratorV [IntV 1, ObjectV, IntV 2]) =
     ([MARKER_a, MARKER_FF, MARKER_B, [1]], Some (TypeError_unable ObjectV)) \<and>
   encode zero_lib (init None None) (GeneratorV [IntV 1, ObjectV, IntV 2]) =
     Inl (TypeError_unable ObjectV)"
proof -
  have "get_handler (init None None) ObjectV = EncodeDefault"
    by (simp add: get_handler_def init_def default_handlers_def dict_get_def isinstance_def
          issubclass_def)
  then have "iterencode zero_lib (init None None) ObjectV = ([], Some (TypeError_unable ObjectV))"
    by (simp add: iterencode.simps encode_default_def isinstance_def issubclass_def raise_def)
  then have "iterencode zero_lib (init None None) (GeneratorV [IntV 1, ObjectV, IntV 2]) =
      ([MARKER_a, MARKER_FF, MARKER_B, [1]], Some (TypeError_unable ObjectV))"
    by (simp add: iterencode_handler [OF default_dispatch(17)] iterencode_handler [OF default_dispatch(4)]
          encode_generator_def encode_number_def is_byte_def returned_def pack_b_def
          pack_signed_def be_bytes_1 seq_def yield_def ok_def)
  then show ?thesis
    by (simp add: encode_def default_dispatch)
qed

text \<open>
  C7. The specification asks for every entry of an unsized object to be the encoding of
  the key followed at once by the encoding of the value, as \<^verbatim>\<open>encode_dict\<close> writes the
  entries of a sized object. \<^verbatim>\<open>encode_iterated_dict\<close> instead passes the tuple
  \<^verbatim>\<open>(key, value)\<close> to \<^verbatim>\<open>iterencode\<close>, and the registry sends a tuple to
  \<^verbatim>\<open>encode_array\<close>: every entry starts with the array marker a and the count 2. For
  the items of \<^verbatim>\<open>{'a': 1}\<close> the encoder returns the first byte string below, where the
  key alone is \<^verbatim>\<open>s\x01a\<close>, the value alone \<^verbatim>\<open>B\x01\<close>, and the sized object has the
  two side by side.
\<close>

theorem iterated_dict_entry_is_an_array:
  "encode zero_lib (init None None) (DictItemsIterV [(StrV [0x61], IntV 1)]) =
     Inr [0x6F, 0xFF, 0x61, 0x02, 0x73, 0x01, 0x61, 0x42, 0x01, 0x45] \<and>
   encode zero_lib (init None None) (StrV [0x61]) = Inr [0x73, 0x01, 0x61] \<and>
   encode zero_lib (init None None) (IntV 1) = Inr [0x42, 0x01] \<and>
   encode zero_lib (init None None) (DictV [(StrV [0x61], IntV 1)]) =
     Inr [0x6F, 0x01, 0x73, 0x01, 0x61, 0x42, 0x01]"
  by (simp add: encode_def eval_handlers markers)

subsection \<open>Keys that are not strings\<close>




subsection \<open>Handler resolution\<close>

text \<open>The registry entries whose type the value is an instance of, in iteration order.\<close>

definition matches :: "pyval \<Rightarrow> (pytype \<times> handler option) list \<Rightarrow> (pytype \<times> handler option) list" where
  "matches v reg = filter (\<lambda>(pytype, handler). isinstance v pytype) reg"

text \<open>
  Resolution as the specification words it: the sentinel, then the exact type, then the
  first entry the value is an instance of, then the default.
\<close>

definition resolve_first :: "encoder \<Rightarrow> pyval \<Rightarrow> handler" where
  "resolve_first self v =
     (if v = NOOP then EncodeNoop
      else
        (case dict_get (handlers self) (type_of v) of
           Some handler \<Rightarrow> handler
         | None \<Rightarrow>
             (case matches v (handlers self) of
                [] \<Rightarrow> default_handler self
              | m # ms \<Rightarrow> (case snd m of Some handler \<Rightarrow> handler | None \<Rightarrow> default_handler self))))"

text \<open>
  Resolution with the last such entry in the place of the first. An entry bound to
  \<^verbatim>\<open>None\<close> is no exact match, and as the last instance match it gives the default.
\<close>

definition resolve_last :: "encoder \<Rightarrow> pyval \<Rightarrow> handler" where
  "resolve_last self v =
     (if v = NOOP then EncodeNoop
      else
        (case dict_get (handlers self) (type_of v) of
           Some handler \<Rightarrow> handler
         | None \<Rightarrow>
             (case matches v (handlers self) of
                [] \<Rightarrow> default_handler self
              | m # ms \<Rightarrow>
                  (case snd (last (m # ms)) of
                     Some handler \<Rightarrow> handler
                   | None \<Rightarrow> default_handler self))))"

text \<open>A caller-supplied handler, for concrete evaluations.\<close>

definition sample_handler :: "pyval \<Rightarrow> trace" where
  "sample_handler v = yield MARKER_N"

lemma fold_last_match:
  "fold (\<lambda>(pytype, handler) maybe_handler. if isinstance v pytype then handler else maybe_handler)
        reg acc =
   (case matches v reg of [] \<Rightarrow> acc | m # ms \<Rightarrow> snd (last (m # ms)))"
proof (induction reg arbitrary: acc)
  case Nil
  show ?case by (simp add: matches_def)
next
  case (Cons p reg)
  obtain t h where p: "p = (t, h)" by (cases p)
  show ?case
    by (cases "matches v reg") (simp_all add: p Cons.IH matches_def)
qed

text \<open>
  C6, as the code has it. \<^verbatim>\<open>get_handler\<close> returns the noop encoder for the sentinel,
  then the handler registered for the exact type, then the handler of the last registry
  entry, in iteration order, that the value is an instance of, and otherwise the default
  handler: the loop over the registry has no \<^verbatim>\<open>break\<close>, so each later match replaces
  the earlier one.
\<close>

theorem get_handler_last_match: "get_handler self v = resolve_last self v"
  by (simp add: get_handler_def resolve_last_def fold_last_match split: option.splits list.splits)

theorem get_handler_last_match_witness:
  "get_handler (init None (Some [(PyObject, Some sample_handler)])) (Instance ''MyInt'' (IntV 7)) =
     Custom sample_handler \<and>
   map fst (matches (Instance ''MyInt'' (IntV 7))
     (handlers (init None (Some [(PyObject, Some sample_handler)])))) = [PyInt, PyObject]"
  using get_handler_last_match [of "init None (Some [(PyObject, Some sample_handler)])"
      "Instance ''MyInt'' (IntV 7)"]
  by (simp add: resolve_last_def matches_def init_def default_handlers_def dict_get_def
        isinstance_def issubclass_def)

text \<open>
  The claim as the specification states it, with the first match winning, fails for an
  encoder constructed with a handler for \<^verbatim>\<open>object\<close> and a \<^verbatim>\<open>str\<close> value. The value is
  an instance of \<^verbatim>\<open>basestring\<close> and of \<^verbatim>\<open>object\<close>, no entry has its exact type, and the
  handler returned is the one of \<^verbatim>\<open>object\<close>, the later of the two entries. (Under any
  other iteration order of the two entries the first and the last still differ.)
\<close>

theorem first_match_counterexample:
  "dict_get (handlers (init None (Some [(PyObject, Some sample_handler)]))) (type_of (StrV [0x61])) = None \<and>
   map fst (matches (StrV [0x61]) (handlers (init None (Some [(PyObject, Some sample_handler)])))) =
     [BaseString, PyObject] \<and>
   resolve_first (init None (Some [(PyObject, Some sample_handler)])) (StrV [0x61]) = EncodeStr \<and>
   get_handler (init None (Some [(PyObject, Some sample_handler)])) (StrV [0x61]) =
     Custom sample_handler"
  by (simp add: get_handler_def resolve_first_def matches_def init_def default_handlers_def
        dict_get_def isinstance_def issubclass_def)

subsection \<open>Values without a handler\<close>

lemma mro_self: "t \<in> set (mro t)"
  by (cases t) simp_all

lemma isinstance_type_of: "isinstance v (type_of v)"
  by (simp add: isinstance_def issubclass_def mro_self)

lemma matches_Nil_iff: "matches v reg = [] \<longleftrightarrow> (\<forall>t\<in>fst ` set reg. \<not> isinstance v t)"
  by (auto simp: matches_def filter_empty_conv)

lemma no_match_no_exact: "matches v reg = [] \<Longrightarrow> dict_get reg (type_of v) = None"
proof -
  assume "matches v reg = []"
  then have "type_of v \<notin> fst ` set reg"
    using isinstance_type_of [of v] by (auto simp: matches_Nil_iff)
  then have "map_of reg (type_of v) = None"
    by (simp add: map_of_eq_None_iff)
  then show ?thesis by (simp add: dict_get_def)
qed

lemma init_update_keys:
  "fst ` set (fold (\<lambda>(key, handler). AList.update key (f handler)) hs reg) =
   fst ` set hs \<union> fst ` set reg"
proof (induction hs arbitrary: reg)
  case Nil
  show ?case by simp
next
  case (Cons p hs)
  obtain k h where p: "p = (k, h)" by (cases p)
  show ?case by (simp add: p Cons.IH dom_update)
qed

lemma init_keys: "fst ` set default_handlers \<subseteq> fst ` set (handlers (init d overrides))"
  by (cases overrides) (simp_all add: init_def init_update_keys)

text \<open>
  C8, as the code has it. When the encoder was constructed without a default handler, a
  value other than the \<^verbatim>\<open>NOOP\<close> sentinel that is an instance of no type in the registry
  (its exact type included) resolves to \<^verbatim>\<open>encode_default\<close>, which raises the
  \<^verbatim>\<open>TypeError\<close> whose message formats the value; nothing is yielded and \<^verbatim>\<open>encode\<close>
  returns nothing but that exception.
\<close>

theorem unsupported_type_error:
  assumes "v \<noteq> NOOP" and "matches v (handlers (init None overrides)) = []"
  shows "get_handler (init None overrides) v = EncodeDefault \<and>
         iterencode L (init None overrides) v = raise (TypeError_unable v) \<and>
         encode L (init None overrides) v = Inl (TypeError_unable v)"
proof -
  have h: "get_handler (init None overrides) v = EncodeDefault"
    using assms no_match_no_exact [OF assms(2)]
    by (simp add: get_handler_def fold_last_match) (simp add: init_def)
  have "PyTuple \<in> fst ` set (handlers (init None overrides))"
    using init_keys [of None overrides] by (auto simp: default_handlers_def)
  then have "\<not> isinstance v PyTuple"
    using assms(2) by (auto simp: matches_Nil_iff)
  then have "iterencode L (init None overrides) v = raise (TypeError_unable v)"
    by (simp add: iterencode_handler [OF h] encode_default_def)
  then show ?thesis
    using h by (simp add: encode_def raise_def)
qed

theorem unsupported_type_error_witness:
  "ObjectV \<noteq> NOOP \<and> matches ObjectV (handlers (init None None)) = [] \<and>
   iterencode zero_lib (init None None) ObjectV = ([], Some (TypeError_unable ObjectV)) \<and>
   encode zero_lib (init None None) ObjectV = Inl (TypeError_unable ObjectV)"
  using unsupported_type_error [of ObjectV None zero_lib]
  by (simp add: matches_def init_def default_handlers_def isinstance_def issubclass_def raise_def)

text \<open>
  The claim as the specification states it covers the \<^verbatim>\<open>NOOP\<close> sentinel, which has no
  exact-type and no subtype match in the default registry and yet encodes to the marker N,
  because \<^verbatim>\<open>get_handler\<close> tests for the sentinel before it consults the registry.
\<close>

theorem noop_without_match_counterexample:
  "dict_get (handlers (init None None)) (type_of NOOP) = None \<and>
   matches NOOP (handlers (init None None)) = [] \<and>
   default_handler (init None None) = EncodeDefault \<and>
   iterencode zero_lib (init None None) NOOP = ([MARKER_N], None) \<and>
   encode zero_lib (init None None) NOOP = Inr MARKER_N"
proof -
  have "iterencode zero_lib (init None None) NOOP = ([MARKER_N], None)"
    by (simp add: eval_handlers)
  moreover have "matches NOOP (handlers (init None None)) = []"
    by (simp add: matches_def init_def default_handlers_def isinstance_def issubclass_def)
  moreover have "dict_get (handlers (init None None)) (type_of NOOP) = None"
    by (simp add: init_def default_handlers_def dict_get_def)
  moreover have "default_handler (init None None) = EncodeDefault"
    by (simp add: init_def)
  ultimately show ?thesis
    by (simp add: encode_def)
qed

subsection \<open>Booleans\<close>

lemma init_update_lookup:
  "k \<notin> fst ` set hs \<Longrightarrow>
   map_of (fold (\<lambda>(key, handler). AList.update key (f handler)) hs reg) k = map_of reg k"
proof (induction hs arbitrary: reg)
  case Nil
  show ?case by simp
next
  case (Cons p hs)
  obtain k' h where p: "p = (k', h)" by (cases p)
  with Cons.prems have "k' \<noteq> k" "k \<notin> fst ` set hs" by auto
  then show ?case by (simp add: p Cons.IH update_conv')
qed

text \<open>
  C10. With the registry entry of \<^verbatim>\<open>bool\<close> as \<^verbatim>\<open>__init__\<close> sets it (no override for
  \<^verbatim>\<open>bool\<close> among the caller's handlers), a boolean encodes to the single chunk T or F.
  A \<^verbatim>\<open>bool\<close> is an instance of \<^verbatim>\<open>int\<close>, and \<^verbatim>\<open>encode_number\<close> would write it as B
  with the payload 1 or 0, but the exact-type lookup finds \<^verbatim>\<open>encode_bool\<close> first.
\<close>

theorem bool_is_not_an_integer:
  assumes "case overrides of None \<Rightarrow> True | Some hs \<Rightarrow> PyBool \<notin> fst ` set hs"
  shows "isinstance (BoolV t) PyInt \<and>
         get_handler (init d overrides) (BoolV t) = EncodeBool \<and>
         iterencode L (init d overrides) (BoolV t) = ok [if t then MARKER_T else MARKER_F] \<and>
         encode L (init d overrides) (BoolV t) = Inr (if t then MARKER_T else MARKER_F) \<and>
         encode_number L (BoolV t) = ok [MARKER_B, [if t then 1 else 0]]"
proof -
  have "map_of (handlers (init d overrides)) PyBool = Some (Some EncodeBool)"
    using assms
    by (cases overrides) (simp_all add: init_def init_update_lookup, simp_all add: default_handlers_def)
  then have h: "get_handler (init d overrides) (BoolV t) = EncodeBool"
    by (simp add: get_handler_def dict_get_def)
  have tr: "iterencode L (init d overrides) (BoolV t) = ok [if t then MARKER_T else MARKER_F]"
    by (simp add: iterencode_handler [OF h] encode_bool_def yield_def ok_def)
  have "encode_number L (BoolV t) = ok [MARKER_B, [if t then 1 else 0]]"
    by (simp add: encode_number_def is_byte_def returned_def pack_b_def pack_signed_def
          be_bytes_1 ok_def)
  then show ?thesis
    using h tr by (simp add: encode_def ok_def isinstance_def issubclass_def)
qed

theorem bool_is_not_an_integer_witness:
  "encode zero_lib (init None None) (BoolV True) = Inr [0x54] \<and>
   encode zero_lib (init None None) (BoolV False) = Inr [0x46] \<and>
   encode zero_lib (init None (Some [(PyObject, Some sample_handler)])) (BoolV True) = Inr [0x54]"
  using bool_is_not_an_integer [of None True None zero_lib]
    bool_is_not_an_integer [of None False None zero_lib]
    bool_is_not_an_integer [of "Some [(PyObject, Some sample_handler)]" True None zero_lib]
  by (simp add: markers)

subsection \<open>The built-in handlers meet only values they apply to\<close>

text \<open>
  \<open>applicable L h v\<close>: the view that the built-in handler \<open>h\<close> reads from the value \<open>v\<close>
  is defined.
\<close>

fun applicable :: "pylib \<Rightarrow> handler \<Rightarrow> pyval \<Rightarrow> bool" where
  "applicable L EncodeBool v = (as_int v \<noteq> None)"
| "applicable L EncodeNumber v = (as_int v \<noteq> None)"
| "applicable L EncodeFloat v = (as_float v \<noteq> None)"
| "applicable L EncodeStr v = (str_bytes v \<noteq> None)"
| "applicable L EncodeArray v = (seq_items v \<noteq> None)"
| "applicable L EncodeGenerator v = (gen_items v \<noteq> None)"
| "applicable L EncodeDict v = (dict_items v \<noteq> None)"
| "applicable L EncodeIteratedDict v = (iter_pairs v \<noteq> None)"
| "applicable L EncodeHugeNumber v = (unicode_text L v \<noteq> None)"
| "applicable L _ v = True"

lemma isinstance_Instance:
  "isinstance (Instance n v) t \<longleftrightarrow> t = Class n (type_of v) \<or> isinstance v t"
  by (auto simp: isinstance_def issubclass_def)

lemma instance_views:
  "isinstance v PyBool \<Longrightarrow> as_int v \<noteq> None"
  "isinstance v PyInt \<Longrightarrow> as_int v \<noteq> None"
  "isinstance v PyLong \<Longrightarrow> as_int v \<noteq> None"
  "isinstance v PyFloat \<Longrightarrow> as_float v \<noteq> None"
  "isinstance v BaseString \<Longrightarrow> str_bytes v \<noteq> None"
  "isinstance v PyTuple \<Longrightarrow> seq_items v \<noteq> None"
  "isinstance v PyList \<Longrightarrow> seq_items v \<noteq> None"
  "isinstance v PySet \<Longrightarrow> seq_items v \<noteq> None"
  "isinstance v PyFrozenset \<Longrightarrow> seq_items v \<noteq> None"
  "isinstance v DictKeysIterator \<Longrightarrow> gen_items v \<noteq> None"
  "isinstance v DictValuesIterator \<Longrightarrow> gen_items v \<noteq> None"
  "isinstance v XRangeType \<Longrightarrow> gen_items v \<noteq> None"
  "isinstance v GeneratorType \<Longrightarrow> gen_items v \<noteq> None"
  "isinstance v DictItemsIterator \<Longrightarrow> iter_pairs v \<noteq> None"
  "isinstance v PyDict \<Longrightarrow> dict_items v \<noteq> None"
  "isinstance v PyDecimal \<Longrightarrow> unicode_text L v \<noteq> None"
  by (induction v; simp add: isinstance_Instance; simp add: isinstance_def issubclass_def)+

lemma default_entry_applicable:
  "(t, Some h) \<in> set default_handlers \<Longrightarrow> isinstance v t \<Longrightarrow> applicable L h v"
  by (auto simp: default_handlers_def instance_views)

lemma set_update_entries: "set (AList.update k x al) \<subseteq> insert (k, x) (set al)"
  by (induction al) auto

lemma fold_update_entries:
  "(t, x) \<in> set (fold (\<lambda>(key, handler). AList.update key (g handler)) hs reg) \<Longrightarrow>
   (t, x) \<in> set reg \<or> (\<exists>h. (t, h) \<in> set hs \<and> x = g h)"
proof (induction hs arbitrary: reg)
  case Nil
  then show ?case by simp
next
  case (Cons p hs)
  obtain k h where p: "p = (k, h)" by (cases p)
  from Cons.prems have "(t, x) \<in> set (fold (\<lambda>(key, handler). AList.update key (g handler)) hs
      (AList.update k (g h) reg))"
    by (simp add: p)
  then have "(t, x) \<in> set (AList.update k (g h) reg) \<or> (\<exists>h. (t, h) \<in> set hs \<and> x = g h)"
    by (rule Cons.IH)
  then show ?case
    using set_update_entries [of k "g h" reg] by (auto simp: p)
qed

lemma get_handler_origin:
  assumes "get_handler self v = h"
  shows "(v = NOOP \<and> h = EncodeNoop) \<or> (\<exists>t. (t, Some h) \<in> set (handlers self) \<and> isinstance v t) \<or>
         h = default_handler self"
proof (cases "v = NOOP")
  case True
  then show ?thesis using assms by (simp add: get_handler_def)
next
  case False
  show ?thesis
  proof (cases "dict_get (handlers self) (type_of v)")
    case (Some h')
    then have "h' = h" using assms False by (simp add: get_handler_def)
    moreover have "map_of (handlers self) (type_of v) = Some (Some h')"
      using Some by (simp add: dict_get_def split: option.splits)
    ultimately have "(type_of v, Some h) \<in> set (handlers self)"
      by (simp add: map_of_SomeD)
    then show ?thesis using isinstance_type_of by blast
  next
    case None
    show ?thesis
    proof (cases "matches v (handlers self)")
      case Nil
      then show ?thesis using assms False None by (simp add: get_handler_def fold_last_match)
    next
      case (Cons m ms)
      have "last (m # ms) \<in> set (matches v (handlers self))"
        unfolding Cons by (rule last_in_set) simp
      then have mem: "last (m # ms) \<in> set (handlers self)" "isinstance v (fst (last (m # ms)))"
        by (auto simp: matches_def)
      show ?thesis
      proof (cases "snd (last (m # ms))")
        case None
        then show ?thesis
          using assms False \<open>dict_get (handlers self) (type_of v) = None\<close> Cons
          by (simp add: get_handler_def fold_last_match)
      next
        case (Some h')
        then have "h' = h"
          using assms False \<open>dict_get (handlers self) (type_of v) = None\<close> Cons
          by (simp add: get_handler_def fold_last_match)
        then have "(fst (last (m # ms)), Some h) \<in> set (handlers self)"
          using mem(1) Some by (metis prod.collapse)
        then show ?thesis using mem(2) by blast
      qed
    qed
  qed
qed


lemma collect_error: "collect rs = Inl e \<Longrightarrow> Inl e \<in> set rs"
  by (induction rs rule: collect.induct) (auto split: sum.splits)

lemma returned_error: "snd (returned rs) = Some e \<Longrightarrow> Inl e \<in> set rs"
  by (auto simp: returned_def raise_def ok_def split: sum.splits dest: collect_error)

lemma pack_error:
  "pack_signed w n = Inl e \<Longrightarrow> e = StructError"
  "pack_unsigned w n = Inl e \<Longrightarrow> e = StructError"
  "Inl e = pack_signed w n \<Longrightarrow> e = StructError"
  "Inl e = pack_unsigned w n \<Longrightarrow> e = StructError"
  by (auto simp: pack_signed_def pack_unsigned_def split: if_splits)

lemma for_each_error: "snd (for_each rec xs) = Some e \<Longrightarrow> \<exists>x\<in>set xs. snd (rec x) = Some e"
  by (induction xs) (auto simp: ok_def snd_seq split: option.splits)

lemma dict_loop_error:
  "snd (dict_loop rec kvs) = Some e \<Longrightarrow>
   e = AssertionError ''object key should be a string'' \<or>
   (\<exists>(k, w)\<in>set kvs. snd (rec k) = Some e \<or> snd (rec w) = Some e)"
  by (induction kvs) (auto simp: ok_def raise_def snd_seq split: option.splits if_splits)

lemma iterated_loop_error:
  "snd (iterated_loop rec kvs) = Some e \<Longrightarrow>
   e = AssertionError ''object key should be a string'' \<or>
   (\<exists>(k, w)\<in>set kvs. snd (rec (TupleV [k, w])) = Some e)"
  by (induction kvs) (auto simp: ok_def raise_def snd_seq split: option.splits if_splits)

lemma sized_header_error:
  "snd (if n < 255 then seq (yield short) (of_result (pack_B (int n)))
        else seq (yield long) (of_result (pack_I (int n)))) = Some e \<Longrightarrow> e = StructError"
  by (auto simp: snd_seq yield_def of_result_def raise_def pack_B_def pack_I_def
        split: if_splits sum.splits dest: pack_error)

lemma length_prefixed_error:
  "snd (returned [Inr m, pack_unsigned w n, Inr c]) = Some e \<Longrightarrow> e = StructError"
proof -
  assume "snd (returned [Inr m, pack_unsigned w n, Inr c]) = Some e"
  then have "Inl e \<in> set [Inr m, pack_unsigned w n, Inr c]"
    by (rule returned_error)
  then have "pack_unsigned w n = Inl e"
    by auto
  then show ?thesis by (rule pack_error)
qed

lemma encode_huge_number_error:
  assumes "unicode_text L v \<noteq> None" and "snd (encode_huge_number L v) = Some e"
  shows "e = StructError"
proof -
  from assms(1) obtain t where "unicode_text L v = Some t" by auto
  then show ?thesis
    using assms(2) length_prefixed_error
    by (auto simp: encode_huge_number_def Let_def pack_B_def pack_I_def split: if_splits)
qed

lemma encode_number_error:
  assumes "as_int v \<noteq> None" and "snd (encode_number L v) = Some e"
  shows "e = StructError"
proof -
  from assms(1) obtain n where n: "as_int v = Some n" by auto
  show ?thesis
  proof (cases "is_int64 n")
    case True
    then show ?thesis
      using assms(2) n
      by (auto simp: encode_number_def pack_b_def pack_h_def pack_i_def pack_q_def
            range_predicates_fits fits_def
            split: if_splits dest!: returned_error dest: pack_error)
  next
    case False
    then have "\<not> is_byte n" by (auto simp: range_predicates_fits fits_def)
    then have "unicode_text L v \<noteq> None" using n by (simp add: as_int_unicode_text)
    then show ?thesis
      using assms(2) n encode_huge_number_error [of L v e]
      by (auto simp: encode_number_def pack_b_def pack_h_def pack_i_def pack_q_def
            split: if_splits dest!: returned_error dest: pack_error)
  qed
qed

lemma encode_float_error:
  assumes "as_float v \<noteq> None" and "snd (encode_float L v) = Some e"
  shows "e = StructError"
proof -
  from assms(1) obtain x where x: "as_float v = Some x" by auto
  then have "unicode_text L v \<noteq> None" by (simp add: as_float_unicode_text)
  then show ?thesis
    using assms(2) x encode_huge_number_error [of L v e]
    by (auto simp: encode_float_def split: if_splits dest!: returned_error)
qed

lemma encode_str_error:
  assumes "str_bytes v \<noteq> None" and "snd (encode_str v) = Some e"
  shows "e = StructError"
proof -
  from assms(1) obtain bs where "str_bytes v = Some bs" by auto
  then show ?thesis
    using assms(2) length_prefixed_error
    by (auto simp: encode_str_def Let_def pack_B_def pack_I_def split: if_splits)
qed

lemma encode_bool_error:
  "as_int v \<noteq> None \<Longrightarrow> snd (encode_bool v) = Some e \<Longrightarrow> e = IndexError"
  by (auto simp: encode_bool_def yield_def raise_def split: if_splits)

lemma encode_default_error: "snd (encode_default v) \<noteq> Some NotApplicable"
  by (auto simp: encode_default_def raise_def split: option.splits list.splits)

lemma container_errors:
  "seq_items v \<noteq> None \<Longrightarrow> snd (encode_array rec v) = Some e \<Longrightarrow>
     e = StructError \<or> (\<exists>x\<in>set (children v). snd (rec x) = Some e)"
  "gen_items v \<noteq> None \<Longrightarrow> snd (encode_generator rec v) = Some e \<Longrightarrow>
     (\<exists>x\<in>set (children v). snd (rec x) = Some e)"
  "dict_items v \<noteq> None \<Longrightarrow> snd (encode_dict rec v) = Some e \<Longrightarrow>
     e = StructError \<or> e = AssertionError ''object key should be a string'' \<or>
     (\<exists>x\<in>set (children v). snd (rec x) = Some e)"
  "iter_pairs v \<noteq> None \<Longrightarrow> snd (encode_iterated_dict rec v) = Some e \<Longrightarrow>
     e = AssertionError ''object key should be a string'' \<or>
     (\<exists>x\<in>set (children v). snd (rec x) = Some e)"
proof -
  show "e = StructError \<or> (\<exists>x\<in>set (children v). snd (rec x) = Some e)"
    if "seq_items v \<noteq> None" "snd (encode_array rec v) = Some e"
  proof -
    from that(1) obtain xs where xs: "seq_items v = Some xs" by auto
    from that(2) consider
      "snd (if length xs < 255 then seq (yield MARKER_a) (of_result (pack_B (int (length xs))))
            else seq (yield MARKER_A) (of_result (pack_I (int (length xs))))) = Some e"
      | "snd (for_each rec xs) = Some e"
      by (auto simp: encode_array_def xs Let_def snd_seq split: option.splits)
    then show ?thesis
      using sized_header_error for_each_error seq_items_children [OF xs] by cases blast+
  qed
  show "\<exists>x\<in>set (children v). snd (rec x) = Some e"
    if "gen_items v \<noteq> None" "snd (encode_generator rec v) = Some e"
  proof -
    from that(1) obtain xs where xs: "gen_items v = Some xs" by auto
    from that(2) have "snd (for_each rec xs) = Some e"
      by (auto simp: encode_generator_def xs snd_seq yield_def split: option.splits)
    then show ?thesis
      using for_each_error gen_items_children [OF xs] by blast
  qed
  show "e = StructError \<or> e = AssertionError ''object key should be a string'' \<or>
     (\<exists>x\<in>set (children v). snd (rec x) = Some e)"
    if "dict_items v \<noteq> None" "snd (encode_dict rec v) = Some e"
  proof -
    from that(1) obtain kvs where kvs: "dict_items v = Some kvs" by auto
    from that(2) consider
      "snd (if length kvs < 255 then seq (yield MARKER_o) (of_result (pack_B (int (length kvs))))
            else seq (yield MARKER_O) (of_result (pack_I (int (length kvs))))) = Some e"
      | "snd (dict_loop rec kvs) = Some e"
      by (auto simp: encode_dict_def kvs Let_def snd_seq split: option.splits)
    then show ?thesis
    proof cases
      case 1
      then show ?thesis using sized_header_error by blast
    next
      case 2
      then show ?thesis
        using dict_loop_error [OF 2] dict_items_children [OF kvs] by blast
    qed
  qed
  show "e = AssertionError ''object key should be a string'' \<or>
     (\<exists>x\<in>set (children v). snd (rec x) = Some e)"
    if "iter_pairs v \<noteq> None" "snd (encode_iterated_dict rec v) = Some e"
  proof -
    from that(1) obtain kvs where kvs: "iter_pairs v = Some kvs" by auto
    from that(2) have "snd (iterated_loop rec kvs) = Some e"
      by (auto simp: encode_iterated_dict_def kvs snd_seq yield_def split: option.splits)
    then show ?thesis
      using iterated_loop_error iter_pairs_children [OF kvs] by blast
  qed
qed



lemma init_entry_origin:
  assumes "(t, Some h) \<in> set (handlers (init dflt overrides))"
  shows "(t, Some h) \<in> set default_handlers \<or>
         (\<exists>hs f. overrides = Some hs \<and> (t, Some f) \<in> set hs \<and> h = Custom f)"
proof (cases overrides)
  case None
  then show ?thesis using assms by (simp add: init_def)
next
  case (Some hs)
  then have "(t, Some h) \<in> set (fold (\<lambda>(key, handler). AList.update key (map_option Custom handler))
      hs default_handlers)"
    using assms by (simp add: init_def)
  then have "(t, Some h) \<in> set default_handlers \<or>
      (\<exists>h'. (t, h') \<in> set hs \<and> Some h = map_option Custom h')"
    by (rule fold_update_entries)
  then show ?thesis
  proof (elim disjE exE conjE)
    fix h'
    assume "(t, h') \<in> set hs" "Some h = map_option Custom h'"
    then have "\<exists>f. (t, Some f) \<in> set hs \<and> h = Custom f"
      by (cases h') auto
    then show ?thesis using Some by blast
  qed simp
qed

text \<open>
  An encoder built by \<^verbatim>\<open>__init__\<close> never runs a built-in handler on a value it does not
  apply to: whenever the caller's own handlers do not report \<open>NotApplicable\<close>, no
  encoding does.
\<close>

lemma not_applicable_unreachable:
  assumes custom: "\<And>hs t f x. overrides = Some hs \<Longrightarrow> (t, Some f) \<in> set hs \<Longrightarrow>
                     snd (f x) \<noteq> Some NotApplicable"
    and dflt: "\<And>f x. dflt = Some f \<Longrightarrow> snd (f x) \<noteq> Some NotApplicable"
  shows "snd (iterencode L (init dflt overrides) v) \<noteq> Some NotApplicable"
proof (induction L "init dflt overrides" v rule: iterencode.induct)
  case (1 L v)
  define h where "h = get_handler (init dflt overrides) v"
  let ?rec = "iterencode L (init dflt overrides)"
  have run: "iterencode L (init dflt overrides) v = run_handler L ?rec h v"
    by (simp add: h_def iterencode.simps)
  have IH: "\<forall>x\<in>set (children v). snd (?rec x) \<noteq> Some NotApplicable"
    using "1" by blast
  from get_handler_origin [OF h_def [symmetric]]
  consider (noop) "h = EncodeNoop"
    | (entry) t where "(t, Some h) \<in> set (handlers (init dflt overrides))" "isinstance v t"
    | (default) "h = default_handler (init dflt overrides)"
    by blast
  then show ?case
  proof cases
    case noop
    then show ?thesis by (simp add: run encode_noop_def yield_def)
  next
    case default
    have "default_handler (init dflt overrides) =
        (case dflt of None \<Rightarrow> EncodeDefault | Some f \<Rightarrow> Custom f)"
      by (simp add: init_def)
    then have "h = EncodeDefault \<or> (\<exists>f. dflt = Some f \<and> h = Custom f)"
      using default by (simp split: option.splits)
    then show ?thesis
      using dflt by (auto simp: run encode_default_error)
  next
    case entry
    from init_entry_origin [OF entry(1)] show ?thesis
    proof (elim disjE exE conjE)
      fix hs f
      assume "overrides = Some hs" "(t, Some f) \<in> set hs" "h = Custom f"
      then have "snd (run_handler L ?rec h v) \<noteq> Some NotApplicable"
        using custom [of hs t f v] by simp
      then show ?thesis by (simp add: run)
    next
      assume "(t, Some h) \<in> set default_handlers"
      then have ap: "applicable L h v"
        using entry(2) by (rule default_entry_applicable)
      show ?thesis
      proof (cases h)
        case EncodeArray
        then show ?thesis
          using ap IH container_errors(1) [of v ?rec NotApplicable] by (auto simp: run)
      next
        case EncodeGenerator
        then show ?thesis
          using ap IH container_errors(2) [of v ?rec NotApplicable] by (auto simp: run)
      next
        case EncodeDict
        then show ?thesis
          using ap IH container_errors(3) [of v ?rec NotApplicable] by (auto simp: run)
      next
        case EncodeIteratedDict
        then show ?thesis
          using ap IH container_errors(4) [of v ?rec NotApplicable] by (auto simp: run)
      next
        case EncodeBool
        then show ?thesis
          using ap encode_bool_error [of v NotApplicable] by (auto simp: run)
      next
        case EncodeNumber
        then show ?thesis
          using ap encode_number_error [of v L NotApplicable] by (auto simp: run)
      next
        case EncodeFloat
        then show ?thesis
          using ap encode_float_error [of v L NotApplicable] by (auto simp: run)
      next
        case EncodeStr
        then show ?thesis
          using ap encode_str_error [of v NotApplicable] by (auto simp: run)
      next
        case EncodeHugeNumber
        then show ?thesis
          using ap encode_huge_number_error [of L v NotApplicable] by (auto simp: run)
      next
        case (Custom f)
        then show ?thesis
          using \<open>(t, Some h) \<in> set default_handlers\<close> by (auto simp: default_handlers_def)
      qed (simp_all add: run encode_default_error encode_noop_def encode_none_def yield_def)
    qed
  qed
qed

end
